theory Spec2Isabelle
  imports Main
begin

section \<open>Strings and paths\<close>

text \<open>
  The ingestion service of \<^verbatim>\<open>src/vllm/rag/ingest/scripts/main.py\<close> works on absolute
  paths. A path is the list of its components below the root, so \<^verbatim>\<open>/app/inbox/a.pdf\<close>
  is \<open>[''app'', ''inbox'', ''a.pdf'']\<close>; joining a path with a name that holds no
  separator (\<^verbatim>\<open>dest_dir / new_name\<close>) appends one component.
\<close>

type_synonym path = "string list"

definition INBOX_DIR :: path where
  "INBOX_DIR = [''app'', ''inbox'']"

definition PROCESSED_DIR :: path where
  "PROCESSED_DIR = [''app'', ''processed'']"

text \<open>\<^verbatim>\<open>str.lower\<close> on the ASCII letters; every other byte is left as it is.\<close>

definition lower_char :: "char \<Rightarrow> char" where
  "lower_char c =
     (case map_of (zip ''ABCDEFGHIJKLMNOPQRSTUVWXYZ'' ''abcdefghijklmnopqrstuvwxyz'') c of
        Some l \<Rightarrow> l
      | None \<Rightarrow> c)"

definition lower :: "string \<Rightarrow> string" where
  "lower s = map lower_char s"

text \<open>\<^verbatim>\<open>str.rfind\<close>: the last index of the character, or \<open>-1\<close>.\<close>

fun rfind :: "string \<Rightarrow> char \<Rightarrow> int" where
  "rfind [] c = - 1"
| "rfind (x # xs) c =
     (let r = rfind xs c in if 0 \<le> r then r + 1 else if x = c then 0 else - 1)"

text \<open>\<^verbatim>\<open>Path.name\<close>: the final component, empty for the root.\<close>

definition name :: "path \<Rightarrow> string" where
  "name p = (if p = [] then [] else last p)"

text \<open>
  \<^verbatim>\<open>Path.suffix\<close>:
  \<^verbatim>\<open>i = name.rfind('.'); return name[i:] if 0 < i < len(name) - 1 else ''\<close>.
\<close>

definition suffix :: "path \<Rightarrow> string" where
  "suffix p =
     (let n = name p; i = rfind n (CHR ''.'')
      in if 0 < i \<and> i < int (length n) - 1 then drop (nat i) n else [])"

text \<open>\<^verbatim>\<open>str(n)\<close> for an integer: decimal digits, a minus sign when negative.\<close>

definition digit :: "nat \<Rightarrow> char" where
  "digit d = ''0123456789'' ! d"

function str_nat :: "nat \<Rightarrow> string" where
  "str_nat n = (if n < 10 then [digit n] else str_nat (n div 10) @ [digit (n mod 10)])"
  by pat_completeness auto
termination
  by (relation "measure id") auto

declare str_nat.simps [simp del]

definition str_int :: "int \<Rightarrow> string" where
  "str_int i = (if i < 0 then CHR ''-'' # str_nat (nat (- i)) else str_nat (nat i))"

section \<open>Category Mapper\<close>

text \<open>
  \<^verbatim>\<open>
  def get_category(file_path: Path) -> str:
      ext = file_path.suffix.lower()
      if ext in ['.pdf']: return 'PDF'
      if ext in ['.md', '.txt', '.html', '.htm']: return 'Documents'
      if ext in ['.py', '.js', '.ts', '.go', '.cpp', '.h', '.java', '.yaml', '.yml']: return 'Code'
      return 'Other'
  \<close>
\<close>

definition get_category :: "path \<Rightarrow> string" where
  "get_category file_path =
     (let ext = lower (suffix file_path) in
      if ext \<in> set [''.pdf''] then ''PDF''
      else if ext \<in> set [''.md'', ''.txt'', ''.html'', ''.htm''] then ''Documents''
      else if ext \<in> set [''.py'', ''.js'', ''.ts'', ''.go'', ''.cpp'', ''.h'', ''.java'',
                           ''.yaml'', ''.yml''] then ''Code''
      else ''Other'')"

section \<open>Errors\<close>

text \<open>
  Every exception the service can meet is a value. All of them are subclasses of
  \<^verbatim>\<open>Exception\<close>, which is what the handler of \<^verbatim>\<open>process_file\<close> catches.
\<close>

datatype error =
    ConnectionError
  | HTTPError nat
  | JSONDecodeError
  | KeyError string
  | TypeError
  | ValueError
  | FileNotFoundError
  | FileExistsError
  | NotADirectoryError
  | IsADirectoryError
  | PermissionError
  | OSError
  | ShutilError
  | LoaderError string
  | IndexError string

definition ebind :: "error + 'a \<Rightarrow> ('a \<Rightarrow> error + 'b) \<Rightarrow> error + 'b" where
  "ebind m f = (case m of Inl e \<Rightarrow> Inl e | Inr v \<Rightarrow> f v)"

section \<open>Embedding Client\<close>

text \<open>
  A JSON value as \<^verbatim>\<open>response.json()\<close> returns it. The numbers of an embedding are only
  passed through, so their type is a parameter. An object keeps its members in the
  order of the text; Python's parser lets the last of two equal keys win.
\<close>

datatype 'n json =
    JNull
  | JBool bool
  | JNum 'n
  | JStr string
  | JArr "'n json list"
  | JObj "(string \<times> 'n json) list"

record request =
  url :: string
  input :: "string list"
  model :: string

text \<open>The body is \<open>None\<close> when it is not JSON text.\<close>

record 'n response =
  status_code :: nat
  body :: "'n json option"

record InfinityEmbedding =
  model_name :: string
  base_url :: string

text \<open>\<^verbatim>\<open>Response.raise_for_status\<close>: an HTTPError for the statuses 400 to 599.\<close>

definition raise_for_status :: "'n response \<Rightarrow> error + unit" where
  "raise_for_status r =
     (if 400 \<le> status_code r \<and> status_code r < 600 then Inl (HTTPError (status_code r))
      else Inr ())"

definition response_json :: "'n response \<Rightarrow> error + 'n json" where
  "response_json r = (case body r of None \<Rightarrow> Inl JSONDecodeError | Some j \<Rightarrow> Inr j)"

text \<open>\<^verbatim>\<open>obj[key]\<close> with a string key: a dict looks the key up, anything else rejects it.\<close>

definition py_getitem :: "'n json \<Rightarrow> string \<Rightarrow> error + 'n json" where
  "py_getitem obj key =
     (case obj of
        JObj kvs \<Rightarrow> (case map_of (rev kvs) key of None \<Rightarrow> Inl (KeyError key) | Some v \<Rightarrow> Inr v)
      | _ \<Rightarrow> Inl TypeError)"

text \<open>
  \<^verbatim>\<open>for item in obj\<close>: a list gives its elements, a dict its keys, a string its
  characters; nothing else is iterable.
\<close>

definition py_iter :: "'n json \<Rightarrow> error + 'n json list" where
  "py_iter obj =
     (case obj of
        JArr xs \<Rightarrow> Inr xs
      | JObj kvs \<Rightarrow> Inr (map JStr (rev (remdups (rev (map fst kvs)))))
      | JStr s \<Rightarrow> Inr (map (\<lambda>c. JStr [c]) s)
      | _ \<Rightarrow> Inl TypeError)"

text \<open>\<^verbatim>\<open>[item["embedding"] for item in data]\<close>: the first failing item ends it.\<close>

fun embedding_items :: "'n json list \<Rightarrow> error + 'n json list" where
  "embedding_items [] = Inr []"
| "embedding_items (item # items) =
     ebind (py_getitem item ''embedding'')
       (\<lambda>v. ebind (embedding_items items) (\<lambda>vs. Inr (v # vs)))"

text \<open>
  \<^verbatim>\<open>
  def _get_text_embeddings(self, texts: List[str]) -> List[List[float]]:
      response = requests.post(
          f"{self.base_url}/embeddings",
          json={"input": texts, "model": self.model_name}
      )
      response.raise_for_status()
      return [item["embedding"] for item in response.json()["data"]]
  \<close>
  The remote service is the function \<open>post\<close>; it may fail to answer at all.
\<close>

definition get_text_embeddings ::
  "(request \<Rightarrow> error + 'n response) \<Rightarrow> InfinityEmbedding \<Rightarrow> string list \<Rightarrow> error + 'n json list"
where
  "get_text_embeddings post self texts =
     ebind (post \<lparr>url = base_url self @ ''/embeddings'', input = texts, model = model_name self\<rparr>)
       (\<lambda>response. ebind (raise_for_status response)
         (\<lambda>_. ebind (response_json response)
           (\<lambda>j. ebind (py_getitem j ''data'')
             (\<lambda>data. ebind (py_iter data) embedding_items))))"

section \<open>The filesystem\<close>

text \<open>
  The filesystem maps a path to what is there: a regular file with its bytes, a
  directory, or a named pipe (\<open>Special\<close>). The root is always a
  directory. An operation that fails leaves what it had written before the failure, so
  each one returns the filesystem after it together with the error it raised, if any.
\<close>

datatype node = File string | Dir | Special

type_synonym filesystem = "path \<Rightarrow> node option"

type_synonym 's outcome = "error option \<times> 's"

definition node_at :: "filesystem \<Rightarrow> path \<Rightarrow> node option" where
  "node_at fs p = (if p = [] then Some Dir else fs p)"

definition is_dir :: "filesystem \<Rightarrow> path \<Rightarrow> bool" where
  "is_dir fs p = (node_at fs p = Some Dir)"

definition exists_path :: "filesystem \<Rightarrow> path \<Rightarrow> bool" where
  "exists_path fs p = (node_at fs p \<noteq> None)"

definition under :: "path \<Rightarrow> path \<Rightarrow> bool" where
  "under d q = (take (length d) q = d)"

text \<open>
  Faults of the operating system that the paths alone do not decide (permissions, a
  read-only, a full or a different device). A rename, the creation of one directory and
  the removal of one file fail as a whole: when the fault is set, the call raises that
  error and changes nothing. A copy can fail before it has opened its destination, or
  after: \<open>After e n\<close> is a copy of a file that raises \<open>e\<close> when the destination has been
  opened for writing and \<open>n\<close> bytes have been written to it (all of them when \<open>n\<close> is
  the length or more: the failure is then in the copying of the metadata). The copy of a
  directory can fail when it lists the source (\<open>Inl e\<close>), or copy only part of the
  entries: \<open>Inr left\<close> gives what then stands below the new directory. The removal of
  a directory tree can raise when only part of it is gone: the entries whose path below
  the tree \<open>kept\<close> holds of are still there.
\<close>

datatype 'a interrupted = Before error | After error 'a

record faults =
  mkdir_fault :: "error option"
  rename_fault :: "error option"
  copy_fault :: "nat interrupted option"
  copytree_fault :: "(error + (path \<Rightarrow> node option)) option"
  unlink_fault :: "error option"
  rmtree_fault :: "(error \<times> (path \<Rightarrow> bool)) option"

text \<open>\<^verbatim>\<open>os.mkdir\<close>: the parent must be a directory and the path must be free.\<close>

definition os_mkdir :: "faults \<Rightarrow> filesystem \<Rightarrow> path \<Rightarrow> error + filesystem" where
  "os_mkdir ft fs p =
     (case mkdir_fault ft of
        Some e \<Rightarrow> Inl e
      | None \<Rightarrow>
          (case node_at fs (butlast p) of
             None \<Rightarrow> Inl FileNotFoundError
           | Some Dir \<Rightarrow> (if exists_path fs p then Inl FileExistsError else Inr (fs(p \<mapsto> Dir)))
           | Some _ \<Rightarrow> Inl NotADirectoryError))"

text \<open>
  \<^verbatim>\<open>Path.mkdir(parents=True, exist_ok=True)\<close>:
  \<^verbatim>\<open>
  try:
      os.mkdir(self, mode)
  except FileNotFoundError:
      if not parents or self.parent == self:
          raise
      self.parent.mkdir(parents=True, exist_ok=True)
      self.mkdir(mode, parents=False, exist_ok=exist_ok)
  except OSError:
      if not exist_ok or not self.is_dir():
          raise
  \<close>
\<close>

definition mkdir_exist_ok :: "faults \<Rightarrow> filesystem \<Rightarrow> path \<Rightarrow> filesystem outcome" where
  "mkdir_exist_ok ft fs p =
     (case os_mkdir ft fs p of
        Inr fs' \<Rightarrow> (None, fs')
      | Inl e \<Rightarrow> (if e \<noteq> FileNotFoundError \<and> is_dir fs p then (None, fs) else (Some e, fs)))"

function mkdir_parents :: "faults \<Rightarrow> filesystem \<Rightarrow> path \<Rightarrow> filesystem outcome" where
  "mkdir_parents ft fs p =
     (case os_mkdir ft fs p of
        Inr fs' \<Rightarrow> (None, fs')
      | Inl e \<Rightarrow>
          (if e = FileNotFoundError then
             (if p = [] then (Some e, fs)
              else (case mkdir_parents ft fs (butlast p) of
                      (Some e', fs') \<Rightarrow> (Some e', fs')
                    | (None, fs') \<Rightarrow> mkdir_exist_ok ft fs' p))
           else if is_dir fs p then (None, fs) else (Some e, fs)))"
  by pat_completeness auto
termination
  by (relation "measure (\<lambda>(ft, fs, p). length p)") auto

declare mkdir_parents.simps [simp del]

text \<open>
  \<^verbatim>\<open>os.rename\<close> on a POSIX system: the entry at \<open>src\<close>, with everything below it,
  goes to \<open>dst\<close>. A file at \<open>dst\<close> is replaced without notice when \<open>src\<close> is not a
  directory. A directory at \<open>dst\<close> is reported as an error here (the system replaces an
  empty one by a directory): \<^verbatim>\<open>shutil.move\<close> never renames onto a directory, it
  resolves such a destination to a free path inside it first.
\<close>

definition relocate :: "filesystem \<Rightarrow> path \<Rightarrow> path \<Rightarrow> filesystem" where
  "relocate fs src dst =
     (\<lambda>q. if under dst q then fs (src @ drop (length dst) q)
          else if under src q then None
          else fs q)"

definition copy_tree :: "filesystem \<Rightarrow> path \<Rightarrow> path \<Rightarrow> filesystem" where
  "copy_tree fs src dst = (\<lambda>q. if under dst q then fs (src @ drop (length dst) q) else fs q)"

definition remove_tree :: "filesystem \<Rightarrow> path \<Rightarrow> filesystem" where
  "remove_tree fs src = (\<lambda>q. if under src q then None else fs q)"

definition os_rename :: "faults \<Rightarrow> filesystem \<Rightarrow> path \<Rightarrow> path \<Rightarrow> error + filesystem" where
  "os_rename ft fs src dst =
     (case rename_fault ft of
        Some e \<Rightarrow> Inl e
      | None \<Rightarrow>
          (case node_at fs src of
             None \<Rightarrow> Inl FileNotFoundError
           | Some n \<Rightarrow>
               (case node_at fs (butlast dst) of
                  None \<Rightarrow> Inl FileNotFoundError
                | Some Dir \<Rightarrow>
                    (if src = dst then Inr fs
                     else if src = [] \<or> dst = [] then Inl OSError
                     else if under src dst then Inl OSError
                     else (case node_at fs dst of
                             None \<Rightarrow> Inr (relocate fs src dst)
                           | Some Dir \<Rightarrow>
                               (if n \<noteq> Dir then Inl IsADirectoryError else Inl OSError)
                           | Some _ \<Rightarrow>
                               (if n = Dir then Inl NotADirectoryError
                                else Inr (relocate fs src dst))))
                | Some _ \<Rightarrow> Inl NotADirectoryError)))"

text \<open>
  \<^verbatim>\<open>shutil.move(src, dst)\<close> of the standard library (there are no symbolic links in
  the model):
  \<^verbatim>\<open>
  real_dst = dst
  if os.path.isdir(dst):
      if _samefile(src, dst):
          os.rename(src, dst); return
      real_dst = os.path.join(dst, _basename(src))
      if os.path.exists(real_dst):
          raise Error("Destination path '%s' already exists" % real_dst)
  try:
      os.rename(src, real_dst)
  except OSError:
      if os.path.isdir(src):
          if _destinsrc(src, dst): raise Error(...)
          copytree(src, real_dst, copy_function=copy_function, symlinks=True)
          rmtree(src)
      else:
          copy_function(src, real_dst)
          os.unlink(src)
  return real_dst
  \<close>
  The checks of \<^verbatim>\<open>_is_immutable\<close> and of the platform are left out. What a failing copy
  has written, and what is left when the removal of the source fails after the copy, stay
  in the filesystem.
\<close>

definition join :: "path \<Rightarrow> string \<Rightarrow> path" where
  "join d b = (if b = [] then d else d @ [b])"

text \<open>
  \<^verbatim>\<open>shutil.copyfile(src, dst)\<close>:
  \<^verbatim>\<open>
  if _samefile(src, dst):
      raise SameFileError(...)
  for i, fn in enumerate([src, dst]):
      try:
          st = _stat(fn)
      except OSError:
          pass
      else:
          if stat.S_ISFIFO(st.st_mode):
              raise SpecialFileError("`%s` is a named pipe" % fn)
  with open(src, 'rb') as fsrc:
      with open(dst, 'wb') as fdst:
          copyfileobj(fsrc, fdst)
  return dst
  \<close>
  Opening the destination with mode \<^verbatim>\<open>'wb'\<close> creates it or cuts it to length zero;
  the bytes are then written from the start. Nothing removes a destination that was not
  written to its end. \<^verbatim>\<open>SameFileError\<close> is a \<^verbatim>\<open>shutil.Error\<close>, \<^verbatim>\<open>SpecialFileError\<close> an
  \<^verbatim>\<open>OSError\<close>.
\<close>

definition copyfile :: "faults \<Rightarrow> filesystem \<Rightarrow> path \<Rightarrow> path \<Rightarrow> filesystem outcome" where
  "copyfile ft fs src dst =
     (if src = dst \<and> exists_path fs src then (Some ShutilError, fs)
      else if node_at fs src = Some Special \<or> node_at fs dst = Some Special
      then (Some OSError, fs)
      else (case node_at fs src of
              None \<Rightarrow> (Some FileNotFoundError, fs)
            | Some (File c) \<Rightarrow>
                (case node_at fs (butlast dst) of
                   None \<Rightarrow> (Some FileNotFoundError, fs)
                 | Some Dir \<Rightarrow>
                     (case node_at fs dst of
                        Some Dir \<Rightarrow> (Some IsADirectoryError, fs)
                      | _ \<Rightarrow>
                          (case copy_fault ft of
                             None \<Rightarrow> (None, fs(dst \<mapsto> File c))
                           | Some (Before e) \<Rightarrow> (Some e, fs)
                           | Some (After e n) \<Rightarrow> (Some e, fs(dst \<mapsto> File (take n c)))))
                 | Some _ \<Rightarrow> (Some NotADirectoryError, fs))
            | Some _ \<Rightarrow> (Some IsADirectoryError, fs)))"

text \<open>
  \<^verbatim>\<open>
  def copy2(src, dst, *, follow_symlinks=True):
      if os.path.isdir(dst):
          dst = os.path.join(dst, os.path.basename(src))
      copyfile(src, dst, follow_symlinks=follow_symlinks)
      copystat(src, dst, follow_symlinks=follow_symlinks)
      return dst
  \<close>
  A failure of \<^verbatim>\<open>copystat\<close> is the fault \<open>After e n\<close> with \<open>n\<close> the length of the file.
\<close>

definition copy2 :: "faults \<Rightarrow> filesystem \<Rightarrow> path \<Rightarrow> path \<Rightarrow> filesystem outcome" where
  "copy2 ft fs src dst =
     copyfile ft fs src (if is_dir fs dst then join dst (name src) else dst)"

definition os_unlink :: "faults \<Rightarrow> filesystem \<Rightarrow> path \<Rightarrow> error + filesystem" where
  "os_unlink ft fs p =
     (case unlink_fault ft of
        Some e \<Rightarrow> Inl e
      | None \<Rightarrow>
          (case node_at fs p of
             None \<Rightarrow> Inl FileNotFoundError
           | Some Dir \<Rightarrow> Inl IsADirectoryError
           | Some _ \<Rightarrow> Inr (fs(p := None))))"

text \<open>
  \<^verbatim>\<open>os.makedirs(name)\<close>, with \<^verbatim>\<open>exist_ok=False\<close> as \<^verbatim>\<open>copytree\<close> calls it:
  \<^verbatim>\<open>
  head, tail = path.split(name)
  if head and tail and not path.exists(head):
      try:
          makedirs(head, exist_ok=exist_ok)
      except FileExistsError:
          pass
  try:
      mkdir(name, mode)
  except OSError:
      if not exist_ok or not path.isdir(name):
          raise
  \<close>
\<close>

function makedirs :: "faults \<Rightarrow> filesystem \<Rightarrow> path \<Rightarrow> filesystem outcome" where
  "makedirs ft fs d =
     (case (if d \<noteq> [] \<and> \<not> exists_path fs (butlast d) then makedirs ft fs (butlast d)
            else (None, fs)) of
        (r, fs1) \<Rightarrow>
          (if r \<noteq> None \<and> r \<noteq> Some FileExistsError then (r, fs1)
           else (case os_mkdir ft fs1 d of Inl e \<Rightarrow> (Some e, fs1) | Inr fs2 \<Rightarrow> (None, fs2))))"
  by pat_completeness auto
termination
  by (relation "measure (\<lambda>(ft, fs, d). length d)") auto

declare makedirs.simps [simp del]

text \<open>
  \<^verbatim>\<open>shutil.copytree(src, dst, symlinks=True)\<close>: lists the source with
  \<^verbatim>\<open>os.scandir\<close>, makes the destination directory, then copies the entries. It goes on
  after an entry that cannot be copied and raises one \<^verbatim>\<open>shutil.Error\<close> at the end, so a
  failing copy leaves the new directory with part of the tree below it.
\<close>

definition copytree :: "faults \<Rightarrow> filesystem \<Rightarrow> path \<Rightarrow> path \<Rightarrow> filesystem outcome" where
  "copytree ft fs src dst =
     (case node_at fs src of
        None \<Rightarrow> (Some FileNotFoundError, fs)
      | Some Dir \<Rightarrow>
          (case copytree_fault ft of
             Some (Inl e) \<Rightarrow> (Some e, fs)
           | other \<Rightarrow>
               (case makedirs ft fs dst of
                  (Some e, fs1) \<Rightarrow> (Some e, fs1)
                | (None, fs1) \<Rightarrow>
                    (case other of
                       Some (Inr left) \<Rightarrow>
                         (Some ShutilError,
                          (\<lambda>q. if under dst q \<and> q \<noteq> dst then left (drop (length dst) q)
                               else fs1 q))
                     | _ \<Rightarrow> (None, copy_tree fs1 src dst))))
      | Some _ \<Rightarrow> (Some NotADirectoryError, fs))"

text \<open>\<^verbatim>\<open>shutil.rmtree\<close>: removes the tree, or raises when part of it is gone.\<close>

definition rmtree :: "faults \<Rightarrow> filesystem \<Rightarrow> path \<Rightarrow> filesystem outcome" where
  "rmtree ft fs p =
     (case rmtree_fault ft of
        None \<Rightarrow> (None, remove_tree fs p)
      | Some (e, kept) \<Rightarrow>
          (Some e, (\<lambda>q. if under p q \<and> \<not> kept (drop (length p) q) then None else fs q)))"

text \<open>
  The part of \<^verbatim>\<open>shutil.move\<close> from \<^verbatim>\<open>try: os.rename(src, real_dst)\<close> on.
\<close>

definition move_to :: "faults \<Rightarrow> filesystem \<Rightarrow> path \<Rightarrow> path \<Rightarrow> path \<Rightarrow> filesystem outcome" where
  "move_to ft fs src dst real_dst =
     (case os_rename ft fs src real_dst of
        Inr fs' \<Rightarrow> (None, fs')
      | Inl _ \<Rightarrow>
          (if is_dir fs src then
             (if under src dst then (Some ShutilError, fs)
              else (case copytree ft fs src real_dst of
                      (Some e, fs1) \<Rightarrow> (Some e, fs1)
                    | (None, fs1) \<Rightarrow> rmtree ft fs1 src))
           else (case copy2 ft fs src real_dst of
                   (Some e, fs1) \<Rightarrow> (Some e, fs1)
                 | (None, fs1) \<Rightarrow>
                     (case os_unlink ft fs1 src of
                        Inl e \<Rightarrow> (Some e, fs1)
                      | Inr fs2 \<Rightarrow> (None, fs2)))))"

definition shutil_move :: "faults \<Rightarrow> filesystem \<Rightarrow> path \<Rightarrow> path \<Rightarrow> filesystem outcome" where
  "shutil_move ft fs src dst =
     (if is_dir fs dst then
        (if src = dst then
           (case os_rename ft fs src dst of Inl e \<Rightarrow> (Some e, fs) | Inr fs' \<Rightarrow> (None, fs'))
         else (let real_dst = join dst (name src) in
               if exists_path fs real_dst then (Some ShutilError, fs)
               else move_to ft fs src dst real_dst))
      else move_to ft fs src dst dst)"

text \<open>
  Where \<^verbatim>\<open>shutil.move(src, dst)\<close> puts the source, its \<^verbatim>\<open>real_dst\<close>: inside \<open>dst\<close> when
  that is a directory, at \<open>dst\<close> otherwise.
\<close>

definition landing :: "filesystem \<Rightarrow> path \<Rightarrow> path \<Rightarrow> path" where
  "landing fs src dst = (if is_dir fs dst then join dst (name src) else dst)"

section \<open>Processing Coordinator\<close>

text \<open>
  What the logger is given, in order. \<open>ERROR\<close> is \<^verbatim>\<open>logger.error\<close>, \<open>INFO\<close> is
  \<^verbatim>\<open>logger.info\<close>.
\<close>

datatype level = INFO | ERROR

datatype message =
    NewFileDetected string
  | LoadingData string
  | Loaded nat string
  | Indexing string
  | SuccessfullyIndexed string
  | Moved string string
  | ErrorProcessing string error

text \<open>
  The state the service works on: the filesystem, the vector index behind the Qdrant
  client (its type is a parameter), and the log.
\<close>

record 'ix world =
  fs :: filesystem
  index :: 'ix
  log :: "(level \<times> message) list"

text \<open>
  What one call of \<^verbatim>\<open>process_file\<close> meets outside the program:
  \<^item> \<open>load_data\<close> is \<^verbatim>\<open>SimpleDirectoryReader(input_files=[str(file_path)]).load_data()\<close>,
    which reads the filesystem and returns the document chunks or raises;
  \<^item> \<open>from_documents\<close> is \<^verbatim>\<open>VectorStoreIndex.from_documents(documents, storage_context)\<close>,
    which embeds the chunks and writes them to the index; it returns the index as it
    has left it and the error it raised, if any;
  \<^item> \<open>now\<close> is the value of \<^verbatim>\<open>int(time.time())\<close> at the move;
  \<^item> \<open>os_faults\<close> are the faults of the operating system during the call.
\<close>

record ('d, 'ix) env =
  load_data :: "filesystem \<Rightarrow> path \<Rightarrow> error + 'd list"
  from_documents :: "'d list \<Rightarrow> 'ix \<Rightarrow> 'ix outcome"
  now :: int
  os_faults :: faults

definition logger_info :: "'ix world \<Rightarrow> message \<Rightarrow> 'ix world" where
  "logger_info w m = w\<lparr>log := log w @ [(INFO, m)]\<rparr>"

definition logger_error :: "'ix world \<Rightarrow> message \<Rightarrow> 'ix world" where
  "logger_error w m = w\<lparr>log := log w @ [(ERROR, m)]\<rparr>"

text \<open>
  The body of the \<^verbatim>\<open>try\<close> statement of \<^verbatim>\<open>process_file\<close> (lines 107 to 131):
  load, index, then sort and move. It returns the state it has reached and the
  exception that left the block, if any.
\<close>

definition try_block :: "('d, 'ix) env \<Rightarrow> 'ix world \<Rightarrow> path \<Rightarrow> 'ix world outcome" where
  "try_block e w file_path =
     (let w1 = logger_info w (LoadingData (name file_path)) in
      case load_data e (fs w1) file_path of
        Inl err \<Rightarrow> (Some err, w1)
      | Inr documents \<Rightarrow>
          (let w2 = logger_info w1 (Loaded (length documents) (name file_path));
               w3 = logger_info w2 (Indexing (name file_path));
               (r, ix) = from_documents e documents (index w3);
               w4 = w3\<lparr>index := ix\<rparr>
           in case r of
                Some err \<Rightarrow> (Some err, w4)
              | None \<Rightarrow>
                  (let w5 = logger_info w4 (SuccessfullyIndexed (name file_path));
                       category = get_category file_path;
                       dest_dir = PROCESSED_DIR @ [category];
                       (r1, fs1) = mkdir_parents (os_faults e) (fs w5) dest_dir;
                       w6 = w5\<lparr>fs := fs1\<rparr>
                   in case r1 of
                        Some err \<Rightarrow> (Some err, w6)
                      | None \<Rightarrow>
                          (let new_name = str_int (now e) @ ''_'' @ name file_path;
                               (r2, fs2) = shutil_move (os_faults e) (fs w6) file_path
                                             (dest_dir @ [new_name]);
                               w7 = w6\<lparr>fs := fs2\<rparr>
                           in case r2 of
                                Some err \<Rightarrow> (Some err, w7)
                              | None \<Rightarrow>
                                  (None, logger_info w7 (Moved (name file_path) category))))))"

text \<open>
  \<^verbatim>\<open>
  def process_file(self, file_path: Path):
      time.sleep(1)
      logger.info(f"New file detected: {file_path.name}")
      try:
          ...
      except Exception as e:
          logger.error(f"Error processing {file_path.name}: {e}")
  \<close>
  The settle delay changes nothing of the state. The result carries the exception that
  reaches the caller, if any.
\<close>

definition process_file :: "('d, 'ix) env \<Rightarrow> 'ix world \<Rightarrow> path \<Rightarrow> 'ix world outcome" where
  "process_file e w file_path =
     (let w0 = logger_info w (NewFileDetected (name file_path)) in
      case try_block e w0 file_path of
        (None, w') \<Rightarrow> (None, w')
      | (Some err, w') \<Rightarrow> (None, logger_error w' (ErrorProcessing (name file_path) err)))"

section \<open>Inbox Watcher\<close>




text \<open>
  The destination the coordinator computes for a file (lines 123 to 129): the category
  directory under the processed root, and in it the name made of the epoch seconds, an
  underscore and the name of the file.
\<close>

definition archive_path :: "int \<Rightarrow> path \<Rightarrow> path" where
  "archive_path t p = PROCESSED_DIR @ [get_category p, str_int t @ ''_'' @ name p]"

text \<open>
  A filesystem is well formed when every entry lies in a directory (so a regular file
  has nothing below it) and the root itself is not an entry of the map.
\<close>

definition wf_fs :: "filesystem \<Rightarrow> bool" where
  "wf_fs f = (\<forall>q. f q \<noteq> None \<longrightarrow> q \<noteq> [] \<and> is_dir f (butlast q))"

text \<open>
  An attempt succeeds (state Done) when the \<^verbatim>\<open>try\<close> block runs to its end, that is to
  the record \<^verbatim>\<open>Moved ... to ...\<close>; otherwise the handler logs the error (state Failed).
\<close>

definition succeeded :: "('d, 'ix) env \<Rightarrow> 'ix world \<Rightarrow> path \<Rightarrow> bool" where
  "succeeded e w p = (fst (try_block e (logger_info w (NewFileDetected (name p))) p) = None)"

text \<open>
  The table of the specification, in its words: \<^verbatim>\<open>.pdf\<close> maps to PDF; \<^verbatim>\<open>.md\<close>,
  \<^verbatim>\<open>.txt\<close>, \<^verbatim>\<open>.html\<close>, \<^verbatim>\<open>.htm\<close> map to Documents; \<^verbatim>\<open>.py\<close>, \<^verbatim>\<open>.js\<close>, \<^verbatim>\<open>.ts\<close>, \<^verbatim>\<open>.go\<close>,
  \<^verbatim>\<open>.cpp\<close>, \<^verbatim>\<open>.h\<close>, \<^verbatim>\<open>.java\<close>, \<^verbatim>\<open>.yaml\<close>, \<^verbatim>\<open>.yml\<close> map to Code; every other extension
  maps to Other. It is compared with \<open>get_category\<close>, which is the code.
\<close>

datatype category = PDF | Documents | Code | Other



section \<open>Vector Index Writer\<close>

text \<open>
  Modelled from the spec: the index writer behind \<^verbatim>\<open>VectorStoreIndex.from_documents\<close>,
  which is code of the llama-index and Qdrant libraries and not of this repository;
  \<^verbatim>\<open>process_file\<close> hands it the loaded documents and nothing else. The specification
  describes it so: an IndexRecord is keyed by (sourcePath, chunkIndex) and mutated only
  by upsert (section 3); for each chunk a vector is obtained, batched, and the chunk is
  upserted into the index tagged with source path and computed category, any single-chunk
  failure failing the whole file (section 4.2); any non-success response or malformed
  body of the embedding service fails the entire step (section 4.5); the vector database
  offers \<^verbatim>\<open>upsert(collection, id, vector, payload)\<close> and nothing to take a record back
  (section 6).
\<close>

record chunk =
  chunk_text :: string
  source :: path

record 'n index_record =
  vector :: "'n json"
  payload_path :: path
  payload_category :: string
  payload_text :: string

type_synonym 'n vector_index = "path \<times> nat \<Rightarrow> 'n index_record option"

definition index_record_of :: "chunk \<Rightarrow> 'n json \<Rightarrow> 'n index_record" where
  "index_record_of c v =
     \<lparr>vector = v, payload_path = source c, payload_category = get_category (source c),
      payload_text = chunk_text c\<rparr>"

definition upsert :: "'n vector_index \<Rightarrow> path \<times> nat \<Rightarrow> 'n index_record \<Rightarrow> 'n vector_index" where
  "upsert ix k r = ix(k \<mapsto> r)"

text \<open>
  Modelled from the spec: the upserts of one file, chunk after chunk from chunk index
  \<open>i\<close> on. \<open>flt j\<close> is the error the vector database answers the upsert of chunk \<open>j\<close>
  with, if any; the first failure ends the step, and what was upserted before it is in
  the database.
\<close>

fun upsert_chunks ::
  "(nat \<Rightarrow> error option) \<Rightarrow> nat \<Rightarrow> (chunk \<times> 'n json) list \<Rightarrow> 'n vector_index
   \<Rightarrow> 'n vector_index outcome"
where
  "upsert_chunks flt i [] ix = (None, ix)"
| "upsert_chunks flt i ((c, v) # rest) ix =
     (case flt i of
        Some e \<Rightarrow> (Some e, ix)
      | None \<Rightarrow> upsert_chunks flt (Suc i) rest (upsert ix (source c, i) (index_record_of c v)))"

text \<open>
  Modelled from the spec: the step Embedding+Indexing. The texts of all chunks go to the
  embedding client in one batch; a failure there, or an answer that does not hold one
  vector per chunk, fails the step before anything is written.
\<close>

definition spec_from_documents ::
  "(string list \<Rightarrow> error + 'n json list) \<Rightarrow> (nat \<Rightarrow> error option) \<Rightarrow> chunk list
   \<Rightarrow> 'n vector_index \<Rightarrow> 'n vector_index outcome"
where
  "spec_from_documents embed_batch flt documents ix =
     (case embed_batch (map chunk_text documents) of
        Inl e \<Rightarrow> (Some e, ix)
      | Inr vectors \<Rightarrow>
          (if length vectors \<noteq> length documents then (Some ValueError, ix)
           else upsert_chunks flt 0 (zip documents vectors) ix))"

text \<open>The keys under which an attempt writes the first \<open>k\<close> chunks of a document list.\<close>

definition chunk_keys :: "chunk list \<Rightarrow> nat \<Rightarrow> (path \<times> nat) set" where
  "chunk_keys documents k = (\<lambda>i. (source (documents ! i), i)) ` {..<k}"

section \<open>A small inbox\<close>

text \<open>
  Concrete inputs on which the definitions are run: an inbox with three regular files and
  a directory, a loader that returns the contents of a regular file as its single chunk and
  rejects everything else, an index that is the list of the chunks written so far, and
  an operating system without faults.
\<close>

definition no_faults :: faults where
  "no_faults =
     \<lparr>mkdir_fault = None, rename_fault = None, copy_fault = None, copytree_fault = None,
      unlink_fault = None, rmtree_fault = None\<rparr>"

definition example_fs :: filesystem where
  "example_fs =
     [[''app''] \<mapsto> Dir,
      [''app'', ''inbox''] \<mapsto> Dir,
      [''app'', ''inbox'', ''report.pdf''] \<mapsto> File ''%PDF-1.7'',
      [''app'', ''inbox'', ''notes.md''] \<mapsto> File ''# notes'',
      [''app'', ''inbox'', ''script.unknownext''] \<mapsto> File ''abc'',
      [''app'', ''inbox'', ''drafts''] \<mapsto> Dir]"

definition example_load :: "filesystem \<Rightarrow> path \<Rightarrow> error + string list" where
  "example_load f p = (case f p of Some (File c) \<Rightarrow> Inr [c] | _ \<Rightarrow> Inl ValueError)"

definition example_env :: "(string, string list) env" where
  "example_env =
     \<lparr>load_data = example_load,
      from_documents = (\<lambda>docs ix. (None, ix @ docs)),
      now = 1700000000,
      os_faults = no_faults\<rparr>"

definition example_world :: "string list world" where
  "example_world = \<lparr>fs = example_fs, index = [], log = []\<rparr>"

text \<open>The same environment when the index cannot be written after the first chunk.\<close>

definition failing_index_env :: "(string, string list) env" where
  "failing_index_env =
     example_env\<lparr>from_documents :=
       (\<lambda>docs ix. (Some (IndexError ''vector database unreachable''), ix @ take 1 docs))\<rparr>"

text \<open>
  The same environment when the operating system refuses the rename (the inbox and the
  processed root are on different devices) and then the removal of the source.
\<close>

definition stuck_env :: "(string, string list) env" where
  "stuck_env =
     example_env\<lparr>os_faults :=
       no_faults\<lparr>rename_fault := Some OSError, unlink_fault := Some PermissionError\<rparr>\<rparr>"

text \<open>
  The same environment when the rename is refused and the copy breaks off after four
  bytes (the device of the archive is full).
\<close>

definition interrupted_env :: "(string, string list) env" where
  "interrupted_env =
     example_env\<lparr>os_faults :=
       no_faults\<lparr>rename_fault := Some OSError, copy_fault := Some (After OSError 4)\<rparr>\<rparr>"

text \<open>The inbox when the archive already holds an entry under the name of the move.\<close>

definition collision_world :: "string list world" where
  "collision_world =
     \<lparr>fs = example_fs
        ([''app'', ''processed''] \<mapsto> Dir,
         [''app'', ''processed'', ''PDF''] \<mapsto> Dir,
         [''app'', ''processed'', ''PDF'', ''1700000000_report.pdf''] \<mapsto> File ''older report''),
      index = [], log = []\<rparr>"

definition directory_world :: "string list world" where
  "directory_world =
     \<lparr>fs = example_fs
        ([''app'', ''processed''] \<mapsto> Dir,
         [''app'', ''processed'', ''PDF''] \<mapsto> Dir,
         [''app'', ''processed'', ''PDF'', ''1700000000_report.pdf''] \<mapsto> Dir),
      index = [], log = []\<rparr>"

text \<open>
  The writer of the specification on the small inbox: the loader makes one chunk of each
  character of a regular file, the embedding service answers every text with a one-number
  vector, and the vector database refuses the upsert of the second chunk or none.
\<close>

definition chunk_load :: "filesystem \<Rightarrow> path \<Rightarrow> error + chunk list" where
  "chunk_load f p =
     (case f p of
        Some (File c) \<Rightarrow> Inr (map (\<lambda>ch. \<lparr>chunk_text = [ch], source = p\<rparr>) c)
      | _ \<Rightarrow> Inl ValueError)"

definition echo_service :: "request \<Rightarrow> error + nat response" where
  "echo_service req =
     Inr \<lparr>status_code = 200,
          body = Some (JObj [(''data'',
                   JArr (map (\<lambda>t. JObj [(''embedding'', JArr [JNum (of_char (hd t))])])
                          (input req)))])\<rparr>"

text \<open>
  Two services that answer with a success status and well-formed items, but not with the
  vectors of the inputs in their order: the first leaves out the last input, the second
  answers in reverse order.
\<close>

definition short_service :: "request \<Rightarrow> error + nat response" where
  "short_service req =
     Inr \<lparr>status_code = 200,
          body = Some (JObj [(''data'',
                   JArr (map (\<lambda>t. JObj [(''embedding'', JArr [JNum (of_char (hd t))])])
                          (butlast (input req))))])\<rparr>"

definition reversed_service :: "request \<Rightarrow> error + nat response" where
  "reversed_service req =
     Inr \<lparr>status_code = 200,
          body = Some (JObj [(''data'',
                   JArr (map (\<lambda>t. JObj [(''embedding'', JArr [JNum (of_char (hd t))])])
                          (rev (input req))))])\<rparr>"

definition infinity :: InfinityEmbedding where
  "infinity = \<lparr>model_name = ''BAAI/bge-m3'', base_url = ''http://infinity:7997''\<rparr>"

definition second_upsert_fails :: "nat \<Rightarrow> error option" where
  "second_upsert_fails i = (if i = 1 then Some (IndexError ''upsert refused'') else None)"

definition spec_env :: "(nat \<Rightarrow> error option) \<Rightarrow> (chunk, nat vector_index) env" where
  "spec_env flt =
     \<lparr>load_data = chunk_load,
      from_documents = spec_from_documents (get_text_embeddings echo_service infinity) flt,
      now = 1700000000,
      os_faults = no_faults\<rparr>"

definition spec_world :: "nat vector_index world" where
  "spec_world = \<lparr>fs = example_fs, index = Map.empty, log = []\<rparr>"

text \<open>The file of three chunks, and the chunks the loader makes of it.\<close>

definition script_path :: path where
  "script_path = [''app'', ''inbox'', ''script.unknownext'']"

definition script_chunks :: "chunk list" where
  "script_chunks =
     [\<lparr>chunk_text = ''a'', source = script_path\<rparr>,
      \<lparr>chunk_text = ''b'', source = script_path\<rparr>,
      \<lparr>chunk_text = ''c'', source = script_path\<rparr>]"

section \<open>Properties of the Embedding Client\<close>

lemma embedding_items_map:
  "\<forall>item\<in>set items. py_getitem item ''embedding'' = Inr (g item)
   \<Longrightarrow> embedding_items items = Inr (map g items)"
  by (induction items) (simp_all add: ebind_def)

text \<open>
  C8 (amended). When the embedding service answers the batch request with a success
  status and a body whose \<open>data\<close> member is a list of items that each hold an
  \<open>embedding\<close> member, \<^verbatim>\<open>_get_text_embeddings\<close> returns the embeddings of the items of
  the reply, one per item and in the order of the reply, whatever the texts of the
  request were. The result is one vector per text, the \<open>i\<close>-th being the embedding
  \<open>vec\<close> of the \<open>i\<close>-th text, exactly when the reply has one item per text and its
  \<open>i\<close>-th item holds that embedding: the code checks neither the number nor the order of
  the items against the texts.
\<close>

theorem embedBatch_reply_order:
  assumes "post \<lparr>url = base_url self @ ''/embeddings'', input = texts, model = model_name self\<rparr>
             = Inr r"
    and "\<not> (400 \<le> status_code r \<and> status_code r < 600)"
    and "body r = Some j"
    and "py_getitem j ''data'' = Inr (JArr items)"
    and "\<forall>item\<in>set items. py_getitem item ''embedding'' = Inr (g item)"
  shows "get_text_embeddings post self texts = Inr (map g items)
       \<and> ((get_text_embeddings post self texts = Inr (map vec texts))
            = (length items = length texts
               \<and> (\<forall>i<length texts. g (items ! i) = vec (texts ! i))))"
proof -
  have "embedding_items items = Inr (map g items)"
    using assms(5) by (rule embedding_items_map)
  then have res: "get_text_embeddings post self texts = Inr (map g items)"
    using assms(1-4)
    by (simp add: get_text_embeddings_def ebind_def raise_for_status_def response_json_def
        py_iter_def)
  have "(map g items = map vec texts)
        = (length items = length texts \<and> (\<forall>i<length texts. g (items ! i) = vec (texts ! i)))"
    by (auto simp: list_eq_iff_nth_eq)
  with res show ?thesis by simp
qed

text \<open>
  The batch \<open>["a", "b", "c"]\<close> against a service that answers every text with a
  one-number vector (the code of its first character), in the order of the request:
  three vectors, in the order a, b, c.
\<close>

theorem embedBatch_reply_order_witness:
  "get_text_embeddings echo_service infinity [''a'', ''b'', ''c'']
     = Inr [JArr [JNum 97], JArr [JNum 98], JArr [JNum 99]]
   \<and> get_text_embeddings echo_service infinity [''a'', ''b'', ''c'']
     = Inr (map (\<lambda>t. JArr [JNum (of_char (hd t))]) [''a'', ''b'', ''c''])"
  using embedBatch_reply_order
    [where post = echo_service and self = infinity and texts = "[''a'', ''b'', ''c'']"
      and r = "\<lparr>status_code = 200,
                body = Some (JObj [(''data'',
                   JArr (map (\<lambda>t. JObj [(''embedding'', JArr [JNum (of_char (hd t))])])
                          [''a'', ''b'', ''c'']))])\<rparr>"
      and j = "JObj [(''data'',
                   JArr (map (\<lambda>t. JObj [(''embedding'', JArr [JNum (of_char (hd t))])])
                          [''a'', ''b'', ''c'']))]"
      and items = "map (\<lambda>t. JObj [(''embedding'', JArr [JNum (of_char (hd t) :: nat)])])
                     [''a'', ''b'', ''c'']"
      and g = "\<lambda>item. case py_getitem item ''embedding'' of Inr v \<Rightarrow> v | Inl _ \<Rightarrow> JNull"
      and vec = "\<lambda>t. JArr [JNum (of_char (hd t) :: nat)]"]
  by (simp add: echo_service_def infinity_def py_getitem_def nth_Cons' less_Suc_eq
      numeral_3_eq_3)

text \<open>
  C8 as stated does not hold. Against a service that leaves out the last text the batch
  \<open>["a", "b", "c"]\<close> returns two vectors, and against one that answers in reverse order
  it returns the vectors of c, b, a; no error is raised in either case.
\<close>

theorem embedBatch_follows_reply:
  "get_text_embeddings short_service infinity [''a'', ''b'', ''c'']
     = Inr [JArr [JNum 97], JArr [JNum 98]]
   \<and> get_text_embeddings reversed_service infinity [''a'', ''b'', ''c'']
     = Inr [JArr [JNum 99], JArr [JNum 98], JArr [JNum 97]]"
  by (simp add: get_text_embeddings_def short_service_def reversed_service_def infinity_def
      ebind_def raise_for_status_def response_json_def py_getitem_def py_iter_def)

section \<open>Error containment\<close>

lemma process_file_returns: "fst (process_file e w p) = None"
  by (simp add: process_file_def split: prod.splits option.splits)



section \<open>What one attempt does to the filesystem and the index\<close>

lemma fs_logger [simp]:
  "fs (logger_info w m) = fs w" "fs (logger_error w m) = fs w"
  "index (logger_info w m) = index w" "index (logger_error w m) = index w"
  by (simp_all add: logger_info_def logger_error_def)

lemma fs_process_file:
  "fs (snd (process_file e w p)) =
     (case load_data e (fs w) p of
        Inl _ \<Rightarrow> fs w
      | Inr docs \<Rightarrow>
          (case fst (from_documents e docs (index w)) of
             Some _ \<Rightarrow> fs w
           | None \<Rightarrow>
               (case mkdir_parents (os_faults e) (fs w) (PROCESSED_DIR @ [get_category p]) of
                  (Some _, f1) \<Rightarrow> f1
                | (None, f1) \<Rightarrow> snd (shutil_move (os_faults e) f1 p (archive_path (now e) p)))))"
  by (simp add: process_file_def try_block_def Let_def archive_path_def
      split: sum.splits prod.splits option.splits)

lemma index_process_file:
  "index (snd (process_file e w p)) =
     (case load_data e (fs w) p of
        Inl _ \<Rightarrow> index w
      | Inr docs \<Rightarrow> snd (from_documents e docs (index w)))"
  by (simp add: process_file_def try_block_def Let_def
      split: sum.splits prod.splits option.splits)

subsection \<open>Prefixes\<close>

lemma under_refl [simp]: "under d d"
  by (simp add: under_def)

lemma under_append [simp]: "under d (d @ r)"
  by (simp add: under_def)

lemma under_iff: "under d q \<longleftrightarrow> (\<exists>r. q = d @ r)"
  by (metis under_def append_eq_conv_conj)

lemma under_trans: "under a b \<Longrightarrow> under b c \<Longrightarrow> under a c"
  by (auto simp: under_iff)

lemma under_butlast: "p \<noteq> [] \<Longrightarrow> under q (butlast p) \<Longrightarrow> under q p"
  by (metis under_iff append_butlast_last_id append_assoc)

subsection \<open>Directory creation only adds directories, on the way to its target\<close>

lemma os_mkdir_frame:
  "os_mkdir ft f p = Inr g \<Longrightarrow>
   g = f(p \<mapsto> Dir) \<and> f p = None \<and> p \<noteq> [] \<and> is_dir f (butlast p)"
  by (auto simp: os_mkdir_def exists_path_def node_at_def is_dir_def
      split: option.splits node.splits if_splits)

lemma mkdir_exist_ok_frame:
  "mkdir_exist_ok ft f p = (r, g) \<Longrightarrow>
   g q = f q \<or> (f q = None \<and> g q = Some Dir \<and> under q p)"
  by (auto simp: mkdir_exist_ok_def split: sum.splits if_splits dest!: os_mkdir_frame)

lemma mkdir_parents_frame:
  "mkdir_parents ft f p = (r, g) \<Longrightarrow>
   g q = f q \<or> (f q = None \<and> g q = Some Dir \<and> under q p)"
proof (induction ft f p arbitrary: r g rule: mkdir_parents.induct)
  case (1 ft f p)
  show ?case
  proof (cases "os_mkdir ft f p")
    case (Inr g1)
    then show ?thesis
      using "1.prems" os_mkdir_frame[OF Inr]
      by (auto simp: mkdir_parents.simps[of ft f p] split: if_splits)
  next
    case (Inl e)
    show ?thesis
    proof (cases "e = FileNotFoundError \<and> p \<noteq> []")
      case False
      then show ?thesis
        using "1.prems" Inl
        by (auto simp: mkdir_parents.simps[of ft f p] split: if_splits)
    next
      case True
      obtain r1 g1 where rec: "mkdir_parents ft f (butlast p) = (r1, g1)"
        by (cases "mkdir_parents ft f (butlast p)")
      have "g1 q = f q \<or> (f q = None \<and> g1 q = Some Dir \<and> under q (butlast p))"
        using "1.IH"[OF Inl _ _ rec] True by simp
      then have ih: "g1 q = f q \<or> (f q = None \<and> g1 q = Some Dir \<and> under q p)"
        using True under_butlast by blast
      show ?thesis
      proof (cases r1)
        case (Some e')
        then show ?thesis
          using "1.prems" Inl True rec ih
          by (simp add: mkdir_parents.simps[of ft f p])
      next
        case None
        then have "mkdir_exist_ok ft g1 p = (r, g)"
          using "1.prems" Inl True rec
          by (simp add: mkdir_parents.simps[of ft f p])
        from mkdir_exist_ok_frame[OF this, of q] ih show ?thesis
          by auto
      qed
    qed
  qed
qed

subsection \<open>Well-formed filesystems\<close>

lemma wf_ancestor_is_dir:
  "wf_fs f \<Longrightarrow> f (p @ r) \<noteq> None \<Longrightarrow> r \<noteq> [] \<Longrightarrow> is_dir f p"
proof (induction r rule: rev_induct)
  case Nil
  then show ?case by simp
next
  case (snoc x r)
  have d: "is_dir f (p @ r)"
    using snoc.prems(1,2) unfolding wf_fs_def
    by (metis append_assoc butlast_snoc)
  show ?case
  proof (cases "r = []")
    case True
    then show ?thesis using d by simp
  next
    case False
    then have "f (p @ r) \<noteq> None"
      using d by (auto simp: is_dir_def node_at_def split: if_splits)
    then show ?thesis
      using snoc.IH snoc.prems(1) False by blast
  qed
qed

lemma wf_file_not_dir:
  "f p = Some (File c) \<Longrightarrow> wf_fs f \<Longrightarrow> \<not> is_dir f p \<and> p \<noteq> []"
  by (auto simp: is_dir_def node_at_def wf_fs_def)

lemma wf_os_mkdir: "wf_fs f \<Longrightarrow> os_mkdir ft f p = Inr g \<Longrightarrow> wf_fs g"
proof -
  assume wf: "wf_fs f" and mk: "os_mkdir ft f p = Inr g"
  from os_mkdir_frame[OF mk] have g: "g = f(p \<mapsto> Dir)" and fp: "f p = None"
    and pne: "p \<noteq> []" and par: "is_dir f (butlast p)"
    by auto
  show "wf_fs g"
    unfolding wf_fs_def
  proof (intro allI impI)
    fix q assume "g q \<noteq> None"
    show "q \<noteq> [] \<and> is_dir g (butlast q)"
    proof (cases "q = p")
      case True
      then show ?thesis
        using pne par g fp by (auto simp: is_dir_def node_at_def)
    next
      case False
      then have "f q \<noteq> None" using \<open>g q \<noteq> None\<close> g by simp
      then have "q \<noteq> []" "is_dir f (butlast q)"
        using wf unfolding wf_fs_def by auto
      then show ?thesis
        using g fp by (auto simp: is_dir_def node_at_def)
    qed
  qed
qed

lemma wf_mkdir_exist_ok: "wf_fs f \<Longrightarrow> mkdir_exist_ok ft f p = (r, g) \<Longrightarrow> wf_fs g"
  by (auto simp: mkdir_exist_ok_def split: sum.splits if_splits dest: wf_os_mkdir)

lemma wf_mkdir_parents: "wf_fs f \<Longrightarrow> mkdir_parents ft f p = (r, g) \<Longrightarrow> wf_fs g"
proof (induction ft f p arbitrary: r g rule: mkdir_parents.induct)
  case (1 ft f p)
  show ?case
  proof (cases "os_mkdir ft f p")
    case (Inr g1)
    then show ?thesis
      using "1.prems" wf_os_mkdir[OF "1.prems"(1) Inr]
      by (auto simp: mkdir_parents.simps[of ft f p])
  next
    case (Inl e)
    show ?thesis
    proof (cases "e = FileNotFoundError \<and> p \<noteq> []")
      case False
      then show ?thesis
        using "1.prems" Inl
        by (auto simp: mkdir_parents.simps[of ft f p] split: if_splits)
    next
      case True
      obtain r1 g1 where rec: "mkdir_parents ft f (butlast p) = (r1, g1)"
        by (cases "mkdir_parents ft f (butlast p)")
      have ih: "wf_fs g1"
        using "1.IH"[OF Inl _ _ "1.prems"(1) rec] True by simp
      show ?thesis
      proof (cases r1)
        case (Some e')
        then show ?thesis
          using "1.prems" Inl True rec ih
          by (simp add: mkdir_parents.simps[of ft f p])
      next
        case None
        then have "mkdir_exist_ok ft g1 p = (r, g)"
          using "1.prems" Inl True rec
          by (simp add: mkdir_parents.simps[of ft f p])
        from wf_mkdir_exist_ok[OF ih this] show ?thesis .
      qed
    qed
  qed
qed

lemma os_mkdir_is_dir: "os_mkdir ft f p = Inr g \<Longrightarrow> is_dir g p"
  by (auto dest!: os_mkdir_frame simp: is_dir_def node_at_def)

lemma mkdir_parents_is_dir: "mkdir_parents ft f p = (None, g) \<Longrightarrow> is_dir g p"
  by (auto simp: mkdir_parents.simps[of ft f p] mkdir_exist_ok_def
      split: sum.splits if_splits prod.splits option.splits dest: os_mkdir_is_dir)

subsection \<open>Moving a regular file\<close>

lemma relocate_file:
  assumes wf: "wf_fs f" and src: "f p = Some (File c)" and nd: "\<not> is_dir f dst" and ne: "p \<noteq> dst"
  shows "relocate f p dst = f(dst \<mapsto> File c, p := None)"
proof
  fix q
  have pf: "\<not> is_dir f p"
    using wf_file_not_dir[OF src wf] by simp
  have below_p: "f (p @ r) = None" if "r \<noteq> []" for r
    using wf_ancestor_is_dir[OF wf _ that, of p] pf by blast
  have below_d: "f (dst @ r) = None" if "r \<noteq> []" for r
    using wf_ancestor_is_dir[OF wf _ that, of dst] nd by blast
  consider (d) "q = dst" | (bd) r where "q = dst @ r" "r \<noteq> []"
    | (p) "\<not> under dst q" "q = p" | (bp) r where "\<not> under dst q" "q = p @ r" "r \<noteq> []"
    | (other) "\<not> under dst q" "\<not> under p q"
    by (metis under_iff append_Nil2)
  then show "relocate f p dst q = (f(dst \<mapsto> File c, p := None)) q"
  proof cases
    case d
    then show ?thesis using src ne by (simp add: relocate_def)
  next
    case bd
    have "q \<noteq> p" using bd below_d[OF bd(2)] src by auto
    then show ?thesis
      using bd below_p[OF bd(2)] below_d[OF bd(2)] by (simp add: relocate_def)
  next
    case p
    then show ?thesis by (simp add: relocate_def)
  next
    case bp
    have "q \<noteq> dst" using bp(1) by auto
    then show ?thesis
      using bp below_p[OF bp(3)] by (simp add: relocate_def)
  next
    case other
    then have "q \<noteq> dst" "q \<noteq> p" by auto
    then show ?thesis using other by (simp add: relocate_def)
  qed
qed

lemma os_rename_file:
  assumes wf: "wf_fs f" and src: "f p = Some (File c)" and nd: "\<not> is_dir f dst" and ne: "p \<noteq> dst"
    and par: "is_dir f (butlast dst)" and dne: "dst \<noteq> []"
  shows "os_rename ft f p dst =
           (case rename_fault ft of Some e \<Rightarrow> Inl e | None \<Rightarrow> Inr (f(dst \<mapsto> File c, p := None)))"
proof -
  have pf: "\<not> is_dir f p" and pne: "p \<noteq> []"
    using wf_file_not_dir[OF src wf] by simp_all
  have nu: "\<not> under p dst"
  proof
    assume "under p dst"
    then obtain r where r: "dst = p @ r" by (auto simp: under_iff)
    then have rne: "r \<noteq> []" using ne by auto
    then have bl: "butlast dst = p @ butlast r" using r by (simp add: butlast_append)
    show False
    proof (cases "butlast r = []")
      case True
      then show ?thesis using par bl pf by simp
    next
      case False
      have "f (p @ butlast r) \<noteq> None"
        using par bl pne by (auto simp: is_dir_def node_at_def split: if_splits)
      from wf_ancestor_is_dir[OF wf this False] pf show False by simp
    qed
  qed
  have dn: "node_at f dst \<noteq> Some Dir"
    using nd by (simp add: is_dir_def)
  show ?thesis
    using src pne dne ne nu dn par relocate_file[OF wf src nd ne]
    by (auto simp: os_rename_def node_at_def is_dir_def split: option.splits node.splits)
qed

subsection \<open>The attempt on a regular file\<close>


lemma archive_path_butlast [simp]: "butlast (archive_path t p) = PROCESSED_DIR @ [get_category p]"
  by (simp add: archive_path_def butlast_append)

lemma archive_path_neq: "archive_path t p \<noteq> p"
proof
  assume eq: "archive_path t p = p"
  then have "p \<noteq> []" by (auto simp: archive_path_def PROCESSED_DIR_def)
  then have "name p = last p" by (simp add: name_def)
  also have "last p = str_int t @ ''_'' @ name p"
    using eq by (metis archive_path_def last_appendR last_ConsR last_ConsL list.distinct(1))
  finally have "length (name p) = length (str_int t @ ''_'' @ name p)" by simp
  then show False by simp
qed

lemma archive_path_not_under: "\<not> under (archive_path t p) (PROCESSED_DIR @ [c])"
  by (auto simp: under_iff archive_path_def PROCESSED_DIR_def)

lemma succeeded_iff:
  "succeeded e w p \<longleftrightarrow>
     (\<exists>docs f1. load_data e (fs w) p = Inr docs
        \<and> fst (from_documents e docs (index w)) = None
        \<and> mkdir_parents (os_faults e) (fs w) (PROCESSED_DIR @ [get_category p]) = (None, f1)
        \<and> fst (shutil_move (os_faults e) f1 p (archive_path (now e) p)) = None)"
  by (auto simp: succeeded_def try_block_def Let_def archive_path_def
      split: sum.splits prod.splits option.splits)

text \<open>
  What the move of a regular file to a place that is not a directory does, fault by
  fault.
\<close>

lemma move_to_file:
  assumes wf: "wf_fs f" and src: "f p = Some (File c)" and nd: "\<not> is_dir f L" and ne: "p \<noteq> L"
    and par: "is_dir f (butlast L)" and dne: "L \<noteq> []"
  shows "move_to ft f p dst L =
           (case rename_fault ft of
              None \<Rightarrow> (None, f(L \<mapsto> File c, p := None))
            | Some _ \<Rightarrow>
                (if f L = Some Special then (Some OSError, f)
                 else (case copy_fault ft of
                         Some (Before e) \<Rightarrow> (Some e, f)
                       | Some (After e n) \<Rightarrow> (Some e, f(L \<mapsto> File (take n c)))
                       | None \<Rightarrow>
                           (case unlink_fault ft of
                              Some e \<Rightarrow> (Some e, f(L \<mapsto> File c))
                            | None \<Rightarrow> (None, f(L \<mapsto> File c, p := None))))))"
proof -
  have pf: "\<not> is_dir f p" and pne: "p \<noteq> []"
    using wf_file_not_dir[OF src wf] by simp_all
  note rn = os_rename_file[OF wf src nd ne par dne, of ft]
  show ?thesis
  proof (cases "rename_fault ft")
    case None
    then show ?thesis using rn by (simp add: move_to_def)
  next
    case (Some e0)
    have np: "node_at f p = Some (File c)" using src pne by (simp add: node_at_def)
    have nL: "node_at f L = f L" using dne by (simp add: node_at_def)
    have pp: "node_at f (butlast L) = Some Dir" using par by (simp add: is_dir_def)
    have fLd: "f L \<noteq> Some Dir" using nd nL by (simp add: is_dir_def)
    have cf: "copyfile ft f p L =
                (if f L = Some Special then (Some OSError, f)
                 else (case copy_fault ft of
                         None \<Rightarrow> (None, f(L \<mapsto> File c))
                       | Some (Before e) \<Rightarrow> (Some e, f)
                       | Some (After e n) \<Rightarrow> (Some e, f(L \<mapsto> File (take n c)))))"
      using ne np nL pp fLd
      by (cases "f L") (auto simp: copyfile_def split: node.splits)
    have c2: "copy2 ft f p L = copyfile ft f p L"
      using nd by (simp add: copy2_def)
    have ul: "os_unlink ft (f(L \<mapsto> File c)) p =
                (case unlink_fault ft of
                   Some e \<Rightarrow> Inl e
                 | None \<Rightarrow> Inr (f(L \<mapsto> File c, p := None)))"
      using ne np pne by (simp add: os_unlink_def node_at_def split: option.splits)
    show ?thesis
      using Some rn pf c2 cf ul
      by (auto simp: move_to_def split: option.splits interrupted.splits)
  qed
qed

lemma shutil_move_file:
  assumes wf: "wf_fs f" and src: "f p = Some (File c)" and ne: "p \<noteq> dst"
    and par: "is_dir f (butlast dst)" and dne: "dst \<noteq> []"
  shows "shutil_move ft f p dst =
           (if is_dir f dst \<and> exists_path f (landing f p dst) then (Some ShutilError, f)
            else (case rename_fault ft of
                    None \<Rightarrow> (None, f(landing f p dst \<mapsto> File c, p := None))
                  | Some _ \<Rightarrow>
                      (if f (landing f p dst) = Some Special then (Some OSError, f)
                       else (case copy_fault ft of
                               Some (Before e) \<Rightarrow> (Some e, f)
                             | Some (After e n) \<Rightarrow>
                                 (Some e, f(landing f p dst \<mapsto> File (take n c)))
                             | None \<Rightarrow>
                                 (case unlink_fault ft of
                                    Some e \<Rightarrow> (Some e, f(landing f p dst \<mapsto> File c))
                                  | None \<Rightarrow>
                                      (None, f(landing f p dst \<mapsto> File c, p := None)))))))"
proof (cases "is_dir f dst")
  case False
  then have L: "landing f p dst = dst" by (simp add: landing_def)
  show ?thesis
    unfolding L
    using False move_to_file[OF wf src False ne par dne, of ft dst]
    by (simp add: shutil_move_def)
next
  case True
  let ?L = "join dst (name p)"
  have L: "landing f p dst = ?L" using True by (simp add: landing_def)
  show ?thesis
  proof (cases "exists_path f ?L")
    case True
    then show ?thesis
      unfolding L using \<open>is_dir f dst\<close> ne by (simp add: shutil_move_def Let_def)
  next
    case False
    have nn: "name p \<noteq> []"
    proof
      assume "name p = []"
      then have "?L = dst" by (simp add: join_def)
      then show False using False \<open>is_dir f dst\<close> by (simp add: exists_path_def is_dir_def)
    qed
    then have Leq: "?L = dst @ [name p]" by (simp add: join_def)
    have nd: "\<not> is_dir f ?L" using False by (auto simp: exists_path_def is_dir_def)
    have pne: "p \<noteq> []" using wf_file_not_dir[OF src wf] by simp
    have neL: "p \<noteq> ?L"
      using False src pne by (auto simp: exists_path_def node_at_def split: if_splits)
    have parL: "is_dir f (butlast ?L)" using \<open>is_dir f dst\<close> Leq by simp
    have dneL: "?L \<noteq> []" using Leq by simp
    show ?thesis
      unfolding L
      using False \<open>is_dir f dst\<close> ne move_to_file[OF wf src nd neL parL dneL, of ft dst]
      by (simp add: shutil_move_def Let_def)
  qed
qed

lemma mkdir_parents_longer:
  assumes "mkdir_parents ft f d = (r, g)" and "length d < length q"
  shows "g q = f q"
proof -
  have "\<not> under q d" using assms(2) by (auto simp: under_iff)
  then show ?thesis using mkdir_parents_frame[OF assms(1), of q] by auto
qed

lemma length_archive_path [simp]:
  "length (archive_path t p) = Suc (length (PROCESSED_DIR @ [get_category p]))"
  by (simp add: archive_path_def)

lemma length_landing: "length dst \<le> length (landing f p dst)"
  by (simp add: landing_def join_def)

lemma landing_cong:
  assumes "g dst = f dst" and "dst \<noteq> []"
  shows "landing g p dst = landing f p dst"
  using assms by (simp add: landing_def is_dir_def node_at_def)

text \<open>The state of the filesystem when the move starts, for a regular file.\<close>

lemma before_move:
  assumes wf: "wf_fs (fs w)" and src: "fs w p = Some (File c)"
    and mk: "mkdir_parents ft (fs w) (PROCESSED_DIR @ [get_category p]) = (None, f1)"
  shows "shutil_move ft f1 p (archive_path t p) =
           (if is_dir (fs w) (archive_path t p)
               \<and> exists_path (fs w) (landing (fs w) p (archive_path t p))
            then (Some ShutilError, f1)
            else (case rename_fault ft of
                    None \<Rightarrow> (None, f1(landing (fs w) p (archive_path t p) \<mapsto> File c, p := None))
                  | Some _ \<Rightarrow>
                      (if fs w (landing (fs w) p (archive_path t p)) = Some Special
                       then (Some OSError, f1)
                       else (case copy_fault ft of
                               Some (Before e) \<Rightarrow> (Some e, f1)
                             | Some (After e n) \<Rightarrow>
                                 (Some e, f1(landing (fs w) p (archive_path t p)
                                               \<mapsto> File (take n c)))
                             | None \<Rightarrow>
                                 (case unlink_fault ft of
                                    Some e \<Rightarrow>
                                      (Some e, f1(landing (fs w) p (archive_path t p) \<mapsto> File c))
                                  | None \<Rightarrow>
                                      (None, f1(landing (fs w) p (archive_path t p) \<mapsto> File c,
                                                p := None)))))))"
proof -
  let ?dst = "archive_path t p"
  have wf1: "wf_fs f1" by (rule wf_mkdir_parents[OF wf mk])
  have src1: "f1 p = Some (File c)"
    using mkdir_parents_frame[OF mk, of p] src by auto
  have dne: "?dst \<noteq> []" by (simp add: archive_path_def)
  have d1: "f1 ?dst = fs w ?dst"
    by (rule mkdir_parents_longer[OF mk]) simp
  have L: "landing f1 p ?dst = landing (fs w) p ?dst"
    using landing_cong[of f1 ?dst "fs w" p] d1 dne by simp
  have "length (PROCESSED_DIR @ [get_category p]) < length (landing (fs w) p ?dst)"
    using length_landing[of ?dst "fs w" p] by simp
  then have L1: "f1 (landing (fs w) p ?dst) = fs w (landing (fs w) p ?dst)"
    by (rule mkdir_parents_longer[OF mk])
  have Lne: "landing (fs w) p ?dst \<noteq> []"
    using length_landing[of ?dst "fs w" p] by auto
  have isd: "is_dir f1 ?dst = is_dir (fs w) ?dst"
    using d1 dne by (simp add: is_dir_def node_at_def)
  have ex: "exists_path f1 (landing (fs w) p ?dst) = exists_path (fs w) (landing (fs w) p ?dst)"
    using L1 Lne by (simp add: exists_path_def node_at_def)
  have par: "is_dir f1 (butlast ?dst)"
    using mkdir_parents_is_dir[OF mk] by simp
  have ne: "p \<noteq> ?dst" using archive_path_neq[of t p] by auto
  show ?thesis
    using shutil_move_file[OF wf1 src1 ne par dne, of ft]
    unfolding L isd ex L1 .
qed

lemma landing_file: "\<not> is_dir f dst \<Longrightarrow> landing f p dst = dst"
  by (simp add: landing_def)

subsection \<open>A missing source\<close>

lemma move_to_missing:
  assumes "node_at f p = None"
  shows "\<exists>err. move_to ft f p dst rd = (Some err, f)"
proof -
  have rn: "\<exists>e. os_rename ft f p rd = Inl e"
    using assms by (simp add: os_rename_def split: option.splits)
  have cp: "\<exists>e. copy2 ft f p rd = (Some e, f)"
    using assms by (simp add: copy2_def copyfile_def exists_path_def)
  have nd: "\<not> is_dir f p"
    using assms by (simp add: is_dir_def)
  from rn cp nd show ?thesis
    by (auto simp: move_to_def)
qed

lemma shutil_move_missing:
  assumes "node_at f p = None"
  shows "\<exists>err. shutil_move ft f p dst = (Some err, f)"
proof -
  have ne: "is_dir f dst \<Longrightarrow> p \<noteq> dst"
    using assms by (auto simp: is_dir_def)
  show ?thesis
    using move_to_missing[OF assms] ne
    by (simp add: shutil_move_def Let_def)
qed

lemma move_to_into_itself:
  assumes d: "is_dir f p" and u: "under p dst" and u2: "under p rd" and ne: "p \<noteq> rd"
  shows "\<exists>err. move_to ft f p dst rd = (Some err, f)"
proof -
  have "\<exists>e. os_rename ft f p rd = Inl e"
    using d u2 ne
    by (simp add: os_rename_def is_dir_def split: option.splits node.splits)
  then show ?thesis
    using d u by (auto simp: move_to_def)
qed

lemma shutil_move_into_itself:
  assumes d: "is_dir f p" and u: "under p dst" and ne: "p \<noteq> dst"
  shows "\<exists>err. shutil_move ft f p dst = (Some err, f)"
proof -
  let ?rd = "join dst (name p)"
  have urd: "under p ?rd"
    using u by (auto simp: join_def under_iff)
  have nrd: "p \<noteq> ?rd"
    using u ne by (auto simp: join_def under_iff)
  show ?thesis
    using move_to_into_itself[OF d u u ne, of ft] move_to_into_itself[OF d u urd nrd, of ft] ne
    by (simp add: shutil_move_def Let_def)
qed

lemma under_archive_path:
  assumes "under p (PROCESSED_DIR @ [get_category p])"
  shows "under p (archive_path t p)"
proof -
  have "under (PROCESSED_DIR @ [get_category p]) (archive_path t p)"
    by (simp add: archive_path_def under_iff)
  with assms show ?thesis
    by (rule under_trans)
qed

subsection \<open>A directory that is there\<close>

lemma mkdir_parents_existing:
  assumes nf: "mkdir_fault ft = None" and d: "is_dir f d" and wf: "wf_fs f"
  shows "mkdir_parents ft f d = (None, f)"
proof -
  have par: "node_at f (butlast d) = Some Dir"
  proof (cases "d = []")
    case True
    then show ?thesis by (simp add: node_at_def)
  next
    case False
    then have "f d \<noteq> None" using d by (simp add: is_dir_def node_at_def)
    then have "is_dir f (butlast d)" using wf unfolding wf_fs_def by blast
    then show ?thesis by (simp add: is_dir_def)
  qed
  have ex: "exists_path f d" using d by (simp add: exists_path_def is_dir_def)
  have "os_mkdir ft f d = Inl FileExistsError"
    using nf par ex by (simp add: os_mkdir_def)
  then show ?thesis
    using d by (simp add: mkdir_parents.simps[of ft f d])
qed

subsection \<open>Evaluating the definitions on the small inbox\<close>

lemmas run_defs =
  process_file_def try_block_def succeeded_def logger_info_def logger_error_def Let_def
  example_env_def example_world_def example_fs_def example_load_def no_faults_def
  failing_index_env_def stuck_env_def interrupted_env_def collision_world_def
  directory_world_def
  shutil_move_def move_to_def os_rename_def copy2_def copyfile_def os_unlink_def
  relocate_def under_def join_def landing_def
  mkdir_parents.simps mkdir_exist_ok_def os_mkdir_def
  node_at_def is_dir_def exists_path_def
  PROCESSED_DIR_def INBOX_DIR_def get_category_def suffix_def name_def lower_def lower_char_def
  str_int_def str_nat.simps digit_def archive_path_def

lemma wf_example_fs: "wf_fs example_fs"
  unfolding wf_fs_def example_fs_def is_dir_def node_at_def
  by (auto split: if_splits)

lemma wf_collision: "wf_fs (fs collision_world)"
  unfolding wf_fs_def example_fs_def is_dir_def node_at_def collision_world_def
  by (auto split: if_splits)


lemma example_archive_path:
  "archive_path (now example_env) [''app'', ''inbox'', ''report.pdf'']
     = [''app'', ''processed'', ''PDF'', ''1700000000_report.pdf'']"
  by (simp add: run_defs)

section \<open>The file stays until its index write has succeeded\<close>

text \<open>
  C2. When the loader raises, or the index write (which includes the embedding of the
  chunks) raises, the attempt leaves the filesystem exactly as it was: no directory is
  created, the archive move is not performed, and the file is still at its inbox path.
  So the file leaves the inbox only after the loader and the whole index write have
  returned without an error.
\<close>

theorem failed_index_keeps_file:
  assumes "load_data e (fs w) p = Inl err \<or>
           (load_data e (fs w) p = Inr docs \<and> fst (from_documents e docs (index w)) = Some err)"
  shows "fs (snd (process_file e w p)) = fs w"
  using assms by (auto simp: fs_process_file)

text \<open>
  The index write fails after its first chunk: \<^verbatim>\<open>report.pdf\<close> is where it was.
\<close>

theorem failed_index_keeps_file_witness:
  "load_data failing_index_env (fs example_world) [''app'', ''inbox'', ''report.pdf'']
     = Inr [''%PDF-1.7'']
   \<and> fst (from_documents failing_index_env [''%PDF-1.7''] (index example_world))
       = Some (IndexError ''vector database unreachable'')
   \<and> fs (snd (process_file failing_index_env example_world [''app'', ''inbox'', ''report.pdf'']))
       = fs example_world
   \<and> fs example_world [''app'', ''inbox'', ''report.pdf''] = Some (File ''%PDF-1.7'')"
  using failed_index_keeps_file
    [of failing_index_env example_world "[''app'', ''inbox'', ''report.pdf'']"
        "IndexError ''vector database unreachable''" "[''%PDF-1.7'']"]
  by (simp add: failing_index_env_def example_env_def example_world_def example_fs_def
      example_load_def)

section \<open>Where the file is after an attempt\<close>

text \<open>
  C1 (amended). Take a regular file of the inbox and the place where \<^verbatim>\<open>shutil.move\<close>
  puts it: its archive name in \<^verbatim>\<open>processed-root/<category>\<close>, or inside that when a
  directory stands there. After the attempt (Done or Failed) one of three holds. The file
  is in the inbox and the place is what it was before; or the file is gone from the inbox
  and is at the place; or the file is in the inbox and the place holds a copy of it or of
  a beginning of it. The third happens only when the operating system refused the rename
  and the fallback of \<^verbatim>\<open>shutil.move\<close> (copy, then remove the source) copied the file and
  could not remove the source, or broke off after it had opened the destination. So the
  file is never in neither place, and it can be in both.
\<close>

theorem file_in_one_place:
  assumes wf: "wf_fs (fs w)" and src: "fs w p = Some (File c)"
  shows "(fs (snd (process_file e w p)) p = Some (File c)
            \<and> fs (snd (process_file e w p)) (landing (fs w) p (archive_path (now e) p))
                = fs w (landing (fs w) p (archive_path (now e) p)))
       \<or> (fs (snd (process_file e w p)) p = None
            \<and> fs (snd (process_file e w p)) (landing (fs w) p (archive_path (now e) p))
                = Some (File c))
       \<or> (fs (snd (process_file e w p)) p = Some (File c)
            \<and> (\<exists>n. fs (snd (process_file e w p)) (landing (fs w) p (archive_path (now e) p))
                      = Some (File (take n c)))
            \<and> rename_fault (os_faults e) \<noteq> None
            \<and> (copy_fault (os_faults e) = None \<and> unlink_fault (os_faults e) \<noteq> None
                \<or> (\<exists>err n. copy_fault (os_faults e) = Some (After err n))))"
proof -
  let ?dst = "archive_path (now e) p"
  let ?L = "landing (fs w) p ?dst"
  let ?d = "PROCESSED_DIR @ [get_category p]"
  let ?f' = "fs (snd (process_file e w p))"
  obtain r1 f1 where mk: "mkdir_parents (os_faults e) (fs w) ?d = (r1, f1)"
    by (cases "mkdir_parents (os_faults e) (fs w) ?d")
  have f1p: "f1 p = Some (File c)"
    using mkdir_parents_frame[OF mk, of p] src by auto
  have "length ?d < length ?L"
    using length_landing[of ?dst "fs w" p] by simp
  then have f1L: "f1 ?L = fs w ?L"
    by (rule mkdir_parents_longer[OF mk])
  have stay: "?f' p = Some (File c) \<and> ?f' ?L = fs w ?L" if "?f' = fs w \<or> ?f' = f1"
    using that src f1p f1L by auto
  have full: "take (length c) c = c" by simp
  show ?thesis
  proof (cases "?f' = fs w \<or> ?f' = f1")
    case True
    then show ?thesis using stay by blast
  next
    case False
    then obtain docs where ld: "load_data e (fs w) p = Inr docs"
      and ix: "fst (from_documents e docs (index w)) = None"
      and r1: "r1 = None"
      and mv: "?f' = snd (shutil_move (os_faults e) f1 p ?dst)"
      using mk by (auto simp: fs_process_file split: sum.splits option.splits)
    note bm = before_move[OF wf src mk[unfolded r1], of "now e"]
    have nsh: "\<not> (is_dir (fs w) ?dst \<and> exists_path (fs w) ?L)"
      using False mv bm by auto
    have neL: "p \<noteq> ?L"
    proof (cases "is_dir (fs w) ?dst")
      case True
      then have "\<not> exists_path (fs w) ?L" using nsh by simp
      then show ?thesis using src by (auto simp: exists_path_def node_at_def split: if_splits)
    next
      case False
      then have "?L = ?dst" by (simp add: landing_def)
      then show ?thesis using archive_path_neq[of "now e" p] by auto
    qed
    show ?thesis
    proof (cases "rename_fault (os_faults e)")
      case None
      then have "?f' = f1(?L \<mapsto> File c, p := None)"
        using mv bm nsh by simp
      then show ?thesis using neL by simp
    next
      case (Some e0)
      have nsp: "fs w ?L \<noteq> Some Special"
        using False mv bm nsh Some by auto
      show ?thesis
      proof (cases "copy_fault (os_faults e)")
        case None
        show ?thesis
        proof (cases "unlink_fault (os_faults e)")
          case None
          then have "?f' = f1(?L \<mapsto> File c, p := None)"
            using mv bm nsh Some nsp \<open>copy_fault (os_faults e) = None\<close> by simp
          then show ?thesis using neL by simp
        next
          case (Some e1)
          then have "?f' = f1(?L \<mapsto> File c)"
            using mv bm nsh \<open>rename_fault (os_faults e) = Some e0\<close> nsp
              \<open>copy_fault (os_faults e) = None\<close> by simp
          then have "?f' p = Some (File c) \<and> ?f' ?L = Some (File (take (length c) c))"
            using neL f1p by simp
          then show ?thesis
            using Some \<open>rename_fault (os_faults e) = Some e0\<close>
              \<open>copy_fault (os_faults e) = None\<close> by blast
        qed
      next
        case (Some cf)
        show ?thesis
        proof (cases cf)
          case (Before e1)
          then have "?f' = f1"
            using mv bm nsh \<open>rename_fault (os_faults e) = Some e0\<close> nsp Some by simp
          then show ?thesis using False by simp
        next
          case (After e1 n)
          then have "?f' = f1(?L \<mapsto> File (take n c))"
            using mv bm nsh \<open>rename_fault (os_faults e) = Some e0\<close> nsp Some by simp
          then have "?f' p = Some (File c) \<and> ?f' ?L = Some (File (take n c))"
            using neL f1p by simp
          then show ?thesis
            using Some After \<open>rename_fault (os_faults e) = Some e0\<close> by blast
        qed
      qed
    qed
  qed
qed

text \<open>
  Without faults \<^verbatim>\<open>report.pdf\<close> leaves the inbox, so it is in the archive.
\<close>

theorem file_in_one_place_witness:
  "wf_fs (fs example_world)
   \<and> fs example_world [''app'', ''inbox'', ''report.pdf''] = Some (File ''%PDF-1.7'')
   \<and> landing (fs example_world) [''app'', ''inbox'', ''report.pdf'']
        (archive_path (now example_env) [''app'', ''inbox'', ''report.pdf''])
       = [''app'', ''processed'', ''PDF'', ''1700000000_report.pdf'']
   \<and> fs (snd (process_file example_env example_world [''app'', ''inbox'', ''report.pdf'']))
         [''app'', ''inbox'', ''report.pdf''] = None
   \<and> fs (snd (process_file example_env example_world [''app'', ''inbox'', ''report.pdf'']))
         [''app'', ''processed'', ''PDF'', ''1700000000_report.pdf''] = Some (File ''%PDF-1.7'')"
proof -
  have wf: "wf_fs (fs example_world)"
    using wf_example_fs by (simp add: example_world_def)
  have src: "fs example_world [''app'', ''inbox'', ''report.pdf''] = Some (File ''%PDF-1.7'')"
    by (simp add: example_world_def example_fs_def)
  have L: "landing (fs example_world) [''app'', ''inbox'', ''report.pdf'']
             (archive_path (now example_env) [''app'', ''inbox'', ''report.pdf''])
           = [''app'', ''processed'', ''PDF'', ''1700000000_report.pdf'']"
    unfolding example_archive_path
    by (simp add: landing_def is_dir_def node_at_def example_world_def example_fs_def)
  have moved: "fs (snd (process_file example_env example_world [''app'', ''inbox'', ''report.pdf'']))
         [''app'', ''inbox'', ''report.pdf''] = None"
    by (simp add: run_defs)
  show ?thesis
    using file_in_one_place[OF wf src, of example_env] wf src L moved
    by auto
qed

text \<open>
  C1 as stated does not hold. The rename is refused and the source cannot be removed: the
  copy made in between stays, the move raises, the handler logs it, and the file is both
  in the inbox and in the archive. When the copy itself breaks off after four bytes, the
  file is in the inbox and the archive holds those four bytes under its name.
\<close>

theorem file_in_both_places:
  "fs example_world [''app'', ''inbox'', ''report.pdf''] = Some (File ''%PDF-1.7'')
   \<and> fs example_world [''app'', ''processed'', ''PDF'', ''1700000000_report.pdf''] = None
   \<and> fs (snd (process_file stuck_env example_world [''app'', ''inbox'', ''report.pdf'']))
         [''app'', ''inbox'', ''report.pdf''] = Some (File ''%PDF-1.7'')
   \<and> fs (snd (process_file stuck_env example_world [''app'', ''inbox'', ''report.pdf'']))
         [''app'', ''processed'', ''PDF'', ''1700000000_report.pdf''] = Some (File ''%PDF-1.7'')
   \<and> fs (snd (process_file interrupted_env example_world [''app'', ''inbox'', ''report.pdf'']))
         [''app'', ''inbox'', ''report.pdf''] = Some (File ''%PDF-1.7'')
   \<and> fs (snd (process_file interrupted_env example_world [''app'', ''inbox'', ''report.pdf'']))
         [''app'', ''processed'', ''PDF'', ''1700000000_report.pdf''] = Some (File ''%PDF'')"
  by (simp add: run_defs)

section \<open>Collisions in the archive\<close>

text \<open>
  C5 (amended). The move makes no check of the archive name. For a regular file whose
  archive name is not a directory: no entry that was there before, other than the source
  and the entry under the archive name, is changed by the attempt; the entry under the
  archive name is afterwards what it was, or the file, or a beginning of the file (the
  copy that \<^verbatim>\<open>shutil.move\<close> falls back to broke off). When a regular file is under the
  archive name already, and the loader, the index write, the creation of the directory
  and the rename (or, the rename refused, the copy and the removal) meet no fault, the
  attempt succeeds, the older file is replaced by the new one, and the source is gone. So
  a collision is not fatal: the older file is overwritten without notice.
\<close>

theorem archive_move_frame:
  assumes wf: "wf_fs (fs w)" and src: "fs w p = Some (File c)"
    and nd: "\<not> is_dir (fs w) (archive_path (now e) p)"
  shows "(\<forall>q. q \<noteq> p \<longrightarrow> q \<noteq> archive_path (now e) p \<longrightarrow> fs w q \<noteq> None
              \<longrightarrow> fs (snd (process_file e w p)) q = fs w q)
       \<and> (fs (snd (process_file e w p)) (archive_path (now e) p) = fs w (archive_path (now e) p)
          \<or> (\<exists>n. fs (snd (process_file e w p)) (archive_path (now e) p)
                    = Some (File (take n c))))
       \<and> (\<forall>c2 docs. fs w (archive_path (now e) p) = Some (File c2)
              \<longrightarrow> load_data e (fs w) p = Inr docs
              \<longrightarrow> fst (from_documents e docs (index w)) = None
              \<longrightarrow> mkdir_fault (os_faults e) = None
              \<longrightarrow> (rename_fault (os_faults e) = None
                   \<or> copy_fault (os_faults e) = None \<and> unlink_fault (os_faults e) = None)
              \<longrightarrow> succeeded e w p
                  \<and> fs (snd (process_file e w p)) (archive_path (now e) p) = Some (File c)
                  \<and> fs (snd (process_file e w p)) p = None)"
proof -
  let ?dst = "archive_path (now e) p"
  let ?d = "PROCESSED_DIR @ [get_category p]"
  let ?f' = "fs (snd (process_file e w p))"
  have L: "landing (fs w) p ?dst = ?dst" using nd by (rule landing_file)
  have ne: "p \<noteq> ?dst" using archive_path_neq[of "now e" p] by auto
  obtain r1 f1 where mk: "mkdir_parents (os_faults e) (fs w) ?d = (r1, f1)"
    by (cases "mkdir_parents (os_faults e) (fs w) ?d")
  have keep: "f1 q = fs w q" if "fs w q \<noteq> None" for q
    using mkdir_parents_frame[OF mk, of q] that by auto
  have f1d: "f1 ?dst = fs w ?dst"
    using mkdir_parents_frame[OF mk, of ?dst] archive_path_not_under by auto
  have full: "Some (File c) = Some (File (take (length c) c))" by simp
  have frame: "\<forall>q. q \<noteq> p \<longrightarrow> q \<noteq> ?dst \<longrightarrow> fs w q \<noteq> None \<longrightarrow> ?f' q = fs w q"
  proof (cases r1)
    case (Some e1)
    then show ?thesis
      using mk keep by (auto simp: fs_process_file split: sum.splits option.splits)
  next
    case None
    note bm = before_move[OF wf src mk[unfolded None], of "now e", unfolded L]
    show ?thesis
      using mk None keep bm
      by (auto simp: fs_process_file split: sum.splits option.splits interrupted.splits)
  qed
  have entry: "?f' ?dst = fs w ?dst \<or> (\<exists>n. ?f' ?dst = Some (File (take n c)))"
  proof (cases r1)
    case (Some e1)
    then show ?thesis
      using mk f1d by (auto simp: fs_process_file split: sum.splits option.splits)
  next
    case None
    note bm = before_move[OF wf src mk[unfolded None], of "now e", unfolded L]
    have "?f' = fs w \<or> ?f' = f1 \<or> ?f' = f1(?dst \<mapsto> File c, p := None)
          \<or> ?f' = f1(?dst \<mapsto> File c) \<or> (\<exists>n. ?f' = f1(?dst \<mapsto> File (take n c)))"
      using mk None bm
      by (auto simp: fs_process_file split: sum.splits option.splits interrupted.splits)
    then consider "?f' = fs w" | "?f' = f1" | "?f' = f1(?dst \<mapsto> File c, p := None)"
      | "?f' = f1(?dst \<mapsto> File c)" | n where "?f' = f1(?dst \<mapsto> File (take n c))"
      by blast
    then show ?thesis
    proof cases
      case 1 then show ?thesis by simp
    next
      case 2 then show ?thesis using f1d by simp
    next
      case 3
      then have "?f' ?dst = Some (File (take (length c) c))" using ne by simp
      then show ?thesis by blast
    next
      case 4
      then have "?f' ?dst = Some (File (take (length c) c))" by simp
      then show ?thesis by blast
    next
      case 5
      then have "?f' ?dst = Some (File (take n c))" by simp
      then show ?thesis by blast
    qed
  qed
  have replaced: "succeeded e w p \<and> ?f' ?dst = Some (File c) \<and> ?f' p = None"
    if old: "fs w ?dst = Some (File c2)" and ld: "load_data e (fs w) p = Inr docs"
      and ix: "fst (from_documents e docs (index w)) = None"
      and mf: "mkdir_fault (os_faults e) = None"
      and rf: "rename_fault (os_faults e) = None
               \<or> copy_fault (os_faults e) = None \<and> unlink_fault (os_faults e) = None"
    for c2 docs
  proof -
    have "fs w ?dst \<noteq> None" using old by simp
    then have "is_dir (fs w) (butlast ?dst)" using wf unfolding wf_fs_def by blast
    then have dir: "is_dir (fs w) ?d" by (simp add: archive_path_butlast)
    have mk0: "mkdir_parents (os_faults e) (fs w) ?d = (None, fs w)"
      using mf dir wf by (rule mkdir_parents_existing)
    note bm = before_move[OF wf src mk0, of "now e", unfolded L]
    have mv: "shutil_move (os_faults e) (fs w) p ?dst = (None, (fs w)(?dst \<mapsto> File c, p := None))"
      using bm nd rf old by (auto split: option.splits)
    have "succeeded e w p"
      unfolding succeeded_iff using ld ix mk0 mv by simp
    moreover have "?f' = (fs w)(?dst \<mapsto> File c, p := None)"
      using ld ix mk0 mv by (simp add: fs_process_file)
    ultimately show ?thesis using ne by simp
  qed
  show ?thesis using frame entry replaced by blast
qed

text \<open>
  The archive holds an older \<^verbatim>\<open>1700000000_report.pdf\<close>: it is replaced, and the other
  file of the inbox is untouched by the attempt on \<^verbatim>\<open>report.pdf\<close>.
\<close>

theorem archive_move_frame_witness:
  "wf_fs (fs collision_world)
   \<and> fs collision_world [''app'', ''inbox'', ''report.pdf''] = Some (File ''%PDF-1.7'')
   \<and> \<not> is_dir (fs collision_world) (archive_path (now example_env) [''app'', ''inbox'', ''report.pdf''])
   \<and> fs collision_world [''app'', ''processed'', ''PDF'', ''1700000000_report.pdf'']
       = Some (File ''older report'')
   \<and> fs (snd (process_file example_env collision_world [''app'', ''inbox'', ''report.pdf'']))
         [''app'', ''inbox'', ''notes.md''] = Some (File ''# notes'')
   \<and> fs (snd (process_file example_env collision_world [''app'', ''inbox'', ''report.pdf'']))
         [''app'', ''processed'', ''PDF'', ''1700000000_report.pdf''] = Some (File ''%PDF-1.7'')
   \<and> fs (snd (process_file example_env collision_world [''app'', ''inbox'', ''report.pdf'']))
         [''app'', ''inbox'', ''report.pdf''] = None"
proof -
  let ?p = "[''app'', ''inbox'', ''report.pdf'']"
  let ?f' = "fs (snd (process_file example_env collision_world ?p))"
  have wf: "wf_fs (fs collision_world)" by (rule wf_collision)
  have src: "fs collision_world ?p = Some (File ''%PDF-1.7'')"
    by (simp add: collision_world_def example_fs_def)
  have nd: "\<not> is_dir (fs collision_world) (archive_path (now example_env) ?p)"
    unfolding example_archive_path
    by (simp add: collision_world_def example_fs_def is_dir_def node_at_def)
  have old: "fs collision_world (archive_path (now example_env) ?p) = Some (File ''older report'')"
    unfolding example_archive_path by (simp add: collision_world_def example_fs_def)
  have other: "fs collision_world [''app'', ''inbox'', ''notes.md''] = Some (File ''# notes'')"
    by (simp add: collision_world_def example_fs_def)
  have ld: "load_data example_env (fs collision_world) ?p = Inr [''%PDF-1.7'']"
    by (simp add: example_env_def example_load_def collision_world_def example_fs_def)
  have ix: "fst (from_documents example_env [''%PDF-1.7''] (index collision_world)) = None"
    by (simp add: example_env_def)
  have nf: "mkdir_fault (os_faults example_env) = None"
    "rename_fault (os_faults example_env) = None"
    by (simp_all add: example_env_def no_faults_def)
  note fr = archive_move_frame[OF wf src nd]
  have "?f' [''app'', ''inbox'', ''notes.md''] = fs collision_world [''app'', ''inbox'', ''notes.md'']"
    using fr other unfolding example_archive_path by simp
  moreover have "?f' (archive_path (now example_env) ?p) = Some (File ''%PDF-1.7'') \<and> ?f' ?p = None"
    using fr old ld ix nf by blast
  ultimately show ?thesis
    using wf src nd other old unfolding example_archive_path by simp
qed

text \<open>
  C5 as stated does not hold. The archive holds an older file under the name of the move:
  the attempt succeeds, its last record is \<^verbatim>\<open>Moved report.pdf to PDF/\<close>, and the older
  file has been replaced by the new one.
\<close>

theorem archive_entry_overwritten:
  "fs collision_world [''app'', ''processed'', ''PDF'', ''1700000000_report.pdf'']
     = Some (File ''older report'')
   \<and> archive_path (now example_env) [''app'', ''inbox'', ''report.pdf'']
     = [''app'', ''processed'', ''PDF'', ''1700000000_report.pdf'']
   \<and> succeeded example_env collision_world [''app'', ''inbox'', ''report.pdf'']
   \<and> fs (snd (process_file example_env collision_world [''app'', ''inbox'', ''report.pdf'']))
         [''app'', ''processed'', ''PDF'', ''1700000000_report.pdf''] = Some (File ''%PDF-1.7'')
   \<and> last (log (snd (process_file example_env collision_world [''app'', ''inbox'', ''report.pdf''])))
     = (INFO, Moved ''report.pdf'' ''PDF'')"
  by (simp add: run_defs)

section \<open>The destination of a successful attempt\<close>




section \<open>An event for a file that is gone\<close>

text \<open>
  C6 (amended). When nothing is at the source path, the attempt does not succeed: it ends
  in the handler, which logs an error record with the name of the file as the last
  record, and nothing reaches the caller. No file is moved, removed or overwritten: the
  filesystem changes at most by directories created on the way to the category
  directory. When the loader rejects the missing path, the filesystem and the index are
  exactly what they were.
\<close>

theorem missing_source_fails:
  assumes gone: "\<not> exists_path (fs w) p"
  shows "\<not> succeeded e w p
       \<and> fst (process_file e w p) = None
       \<and> (\<exists>err. last (log (snd (process_file e w p))) = (ERROR, ErrorProcessing (name p) err))
       \<and> (\<forall>q. fs (snd (process_file e w p)) q = fs w q
              \<or> (fs w q = None \<and> fs (snd (process_file e w p)) q = Some Dir))
       \<and> (\<forall>err. load_data e (fs w) p = Inl err \<longrightarrow>
              fs (snd (process_file e w p)) = fs w \<and> index (snd (process_file e w p)) = index w)"
proof -
  let ?d = "PROCESSED_DIR @ [get_category p]"
  let ?dst = "archive_path (now e) p"
  have none: "node_at (fs w) p = None"
    using gone by (simp add: exists_path_def)
  have mv: "\<exists>err. shutil_move (os_faults e) f1 p ?dst = (Some err, f1)"
    if mk: "mkdir_parents (os_faults e) (fs w) ?d = (r1, f1)" for r1 f1
  proof -
    have pne: "p \<noteq> []" using none by (auto simp: node_at_def split: if_splits)
    from mkdir_parents_frame[OF mk, of p]
    consider "f1 p = None" | "f1 p = Some Dir" "under p ?d"
      using none pne by (auto simp: node_at_def)
    then show ?thesis
    proof cases
      case 1
      then have "node_at f1 p = None" using pne by (simp add: node_at_def)
      then show ?thesis by (rule shutil_move_missing)
    next
      case 2
      have "is_dir f1 p" using 2(1) pne by (simp add: is_dir_def node_at_def)
      moreover have "under p ?dst" using 2(2) by (rule under_archive_path)
      moreover have "p \<noteq> ?dst" using archive_path_neq[of "now e" p] by auto
      ultimately show ?thesis by (rule shutil_move_into_itself)
    qed
  qed
  have fail: "\<not> succeeded e w p"
    unfolding succeeded_iff using mv by fastforce
  then obtain err w1 where
    tb: "try_block e (logger_info w (NewFileDetected (name p))) p = (Some err, w1)"
    unfolding succeeded_def
    by (cases "try_block e (logger_info w (NewFileDetected (name p))) p") auto
  have lg: "\<exists>err. last (log (snd (process_file e w p))) = (ERROR, ErrorProcessing (name p) err)"
    using tb by (simp add: process_file_def logger_error_def)
  have frame: "fs (snd (process_file e w p)) q = fs w q
        \<or> (fs w q = None \<and> fs (snd (process_file e w p)) q = Some Dir)" for q
  proof -
    obtain r1 f1 where mk: "mkdir_parents (os_faults e) (fs w) ?d = (r1, f1)"
      by (cases "mkdir_parents (os_faults e) (fs w) ?d")
    from mv[OF mk] obtain err' where
      "shutil_move (os_faults e) f1 p ?dst = (Some err', f1)" by blast
    then show ?thesis
      using mk mkdir_parents_frame[OF mk, of q]
      by (auto simp: fs_process_file split: sum.splits option.splits)
  qed
  have ld: "\<forall>err. load_data e (fs w) p = Inl err \<longrightarrow>
              fs (snd (process_file e w p)) = fs w \<and> index (snd (process_file e w p)) = index w"
    by (simp add: fs_process_file index_process_file)
  show ?thesis
    using fail lg frame ld process_file_returns by blast
qed

text \<open>
  The loader rejects \<^verbatim>\<open>gone.pdf\<close>: filesystem and index are unchanged.
\<close>

theorem missing_source_fails_witness:
  "\<not> exists_path (fs example_world) [''app'', ''inbox'', ''gone.pdf'']
   \<and> \<not> succeeded example_env example_world [''app'', ''inbox'', ''gone.pdf'']
   \<and> fs (snd (process_file example_env example_world [''app'', ''inbox'', ''gone.pdf'']))
       = fs example_world
   \<and> index (snd (process_file example_env example_world [''app'', ''inbox'', ''gone.pdf''])) = []"
proof -
  have gone: "\<not> exists_path (fs example_world) [''app'', ''inbox'', ''gone.pdf'']"
    by (simp add: run_defs)
  have ld: "load_data example_env (fs example_world) [''app'', ''inbox'', ''gone.pdf'']
              = Inl ValueError"
    by (simp add: run_defs)
  have "index example_world = []" by (simp add: example_world_def)
  then show ?thesis
    using missing_source_fails[OF gone, of example_env] ld gone by auto
qed

text \<open>
  C6 as stated does not hold: the duplicate event is not taken as "already archived", it
  is logged at level ERROR like every other failure.
\<close>

theorem missing_source_logged_as_error:
  "\<not> exists_path (fs example_world) [''app'', ''inbox'', ''gone.pdf'']
   \<and> last (log (snd (process_file example_env example_world [''app'', ''inbox'', ''gone.pdf''])))
       = (ERROR, ErrorProcessing ''gone.pdf'' ValueError)"
  by (simp add: run_defs)

section \<open>A failure does not stop the service\<close>



section \<open>Properties of the Vector Index Writer\<close>

lemma upsert_chunks_frame:
  "upsert_chunks flt i cvs ix = (r, ix') \<Longrightarrow>
   ix' key = ix key \<or> (\<exists>j<length cvs. key = (source (fst (cvs ! j)), i + j))"
proof (induction cvs arbitrary: i ix)
  case Nil
  then show ?case by simp
next
  case (Cons cv cvs)
  obtain c v where cv: "cv = (c, v)" by (cases cv)
  show ?case
  proof (cases "flt i")
    case (Some e)
    then show ?thesis using Cons.prems cv by simp
  next
    case None
    let ?ix1 = "upsert ix (source c, i) (index_record_of c v)"
    have "upsert_chunks flt (Suc i) cvs ?ix1 = (r, ix')"
      using Cons.prems cv None by simp
    from Cons.IH[OF this]
    have "ix' key = ?ix1 key \<or> (\<exists>j<length cvs. key = (source (fst (cvs ! j)), Suc i + j))" .
    then show ?thesis
    proof
      assume "ix' key = ?ix1 key"
      then show ?thesis
        using cv by (cases "key = (source c, i)") (auto simp: upsert_def)
    next
      assume "\<exists>j<length cvs. key = (source (fst (cvs ! j)), Suc i + j)"
      then obtain j where "j < length cvs" "key = (source (fst (cvs ! j)), Suc i + j)" by blast
      then have "Suc j < length (cv # cvs) \<and> key = (source (fst ((cv # cvs) ! Suc j)), i + Suc j)"
        by simp
      then show ?thesis by blast
    qed
  qed
qed

text \<open>What the upserts have written when they stop: the records of the first \<open>k\<close> chunks.\<close>

lemma upsert_chunks_prefix:
  "upsert_chunks flt i cvs ix = (r, ix') \<Longrightarrow>
   \<exists>k\<le>length cvs.
      (r = None \<longrightarrow> k = length cvs) \<and> (r \<noteq> None \<longrightarrow> k < length cvs)
    \<and> (\<forall>j<k. ix' (source (fst (cvs ! j)), i + j)
                 = Some (index_record_of (fst (cvs ! j)) (snd (cvs ! j))))
    \<and> (\<forall>key. (\<forall>j<k. key \<noteq> (source (fst (cvs ! j)), i + j)) \<longrightarrow> ix' key = ix key)"
proof (induction cvs arbitrary: i ix)
  case Nil
  then show ?case by simp
next
  case (Cons cv cvs)
  obtain c v where cv: "cv = (c, v)" by (cases cv)
  show ?case
  proof (cases "flt i")
    case (Some e)
    then have "r = Some e" "ix' = ix" using Cons.prems cv by simp_all
    then show ?thesis by (intro exI[of _ 0]) simp
  next
    case None
    let ?ix1 = "upsert ix (source c, i) (index_record_of c v)"
    have rec: "upsert_chunks flt (Suc i) cvs ?ix1 = (r, ix')"
      using Cons.prems cv None by simp
    from Cons.IH[OF rec] obtain k where k: "k \<le> length cvs"
      and rn: "r = None \<longrightarrow> k = length cvs" and rs: "r \<noteq> None \<longrightarrow> k < length cvs"
      and wr: "\<forall>j<k. ix' (source (fst (cvs ! j)), Suc i + j)
                 = Some (index_record_of (fst (cvs ! j)) (snd (cvs ! j)))"
      and fr: "\<forall>key. (\<forall>j<k. key \<noteq> (source (fst (cvs ! j)), Suc i + j)) \<longrightarrow> ix' key = ?ix1 key"
      by blast
    have head: "ix' (source c, i) = Some (index_record_of c v)"
    proof -
      have "\<forall>j<k. (source c, i) \<noteq> (source (fst (cvs ! j)), Suc i + j)" by simp
      then have "ix' (source c, i) = ?ix1 (source c, i)" using fr by blast
      then show ?thesis by (simp add: upsert_def)
    qed
    have wr': "\<forall>j<Suc k. ix' (source (fst ((cv # cvs) ! j)), i + j)
                 = Some (index_record_of (fst ((cv # cvs) ! j)) (snd ((cv # cvs) ! j)))"
    proof (intro allI impI)
      fix j assume "j < Suc k"
      show "ix' (source (fst ((cv # cvs) ! j)), i + j)
                 = Some (index_record_of (fst ((cv # cvs) ! j)) (snd ((cv # cvs) ! j)))"
      proof (cases j)
        case 0
        then show ?thesis using head cv by simp
      next
        case (Suc j')
        then have "j' < k" using \<open>j < Suc k\<close> by simp
        then show ?thesis using wr Suc by simp
      qed
    qed
    have fr': "\<forall>key. (\<forall>j<Suc k. key \<noteq> (source (fst ((cv # cvs) ! j)), i + j)) \<longrightarrow> ix' key = ix key"
    proof (intro allI impI)
      fix key assume a: "\<forall>j<Suc k. key \<noteq> (source (fst ((cv # cvs) ! j)), i + j)"
      have k0: "key \<noteq> (source c, i)" using a[rule_format, of 0] cv by simp
      have "\<forall>j<k. key \<noteq> (source (fst (cvs ! j)), Suc i + j)"
      proof (intro allI impI)
        fix j assume "j < k"
        then show "key \<noteq> (source (fst (cvs ! j)), Suc i + j)"
          using a[rule_format, of "Suc j"] by simp
      qed
      then have "ix' key = ?ix1 key" using fr by blast
      then show "ix' key = ix key" using k0 by (simp add: upsert_def)
    qed
    show ?thesis
      using k rn rs wr' fr' by (intro exI[of _ "Suc k"]) simp
  qed
qed

lemma upsert_chunks_no_fault: "fst (upsert_chunks (\<lambda>_. None) i cvs ix) = None"
  by (induction cvs arbitrary: i ix) auto

lemma upsert_chunks_complete:
  assumes "upsert_chunks (\<lambda>_. None) i cvs ix = (r, ix')"
  shows "r = None"
    and "\<forall>j<length cvs. ix' (source (fst (cvs ! j)), i + j)
                 = Some (index_record_of (fst (cvs ! j)) (snd (cvs ! j)))"
    and "\<forall>key. (\<forall>j<length cvs. key \<noteq> (source (fst (cvs ! j)), i + j)) \<longrightarrow> ix' key = ix key"
proof -
  show r: "r = None"
    using upsert_chunks_no_fault[of i cvs ix] assms by simp
  from upsert_chunks_prefix[OF assms] r obtain k where "k = length cvs"
      and wr: "\<forall>j<k. ix' (source (fst (cvs ! j)), i + j)
                 = Some (index_record_of (fst (cvs ! j)) (snd (cvs ! j)))"
      and fr: "\<forall>key. (\<forall>j<k. key \<noteq> (source (fst (cvs ! j)), i + j)) \<longrightarrow> ix' key = ix key"
    by blast
  then show "\<forall>j<length cvs. ix' (source (fst (cvs ! j)), i + j)
                 = Some (index_record_of (fst (cvs ! j)) (snd (cvs ! j)))"
    and "\<forall>key. (\<forall>j<length cvs. key \<noteq> (source (fst (cvs ! j)), i + j)) \<longrightarrow> ix' key = ix key"
    by simp_all
qed

text \<open>
  A complete write does not depend on what stood under the keys of its chunks before.
\<close>

lemma upsert_chunks_overwrites:
  assumes agree: "\<forall>key. (\<forall>j<length cvs. key \<noteq> (source (fst (cvs ! j)), i + j)) \<longrightarrow> ixa key = ixb key"
  shows "upsert_chunks (\<lambda>_. None) i cvs ixa = upsert_chunks (\<lambda>_. None) i cvs ixb"
proof -
  obtain ra ia where a: "upsert_chunks (\<lambda>_. None) i cvs ixa = (ra, ia)"
    by (cases "upsert_chunks (\<lambda>_. None) i cvs ixa")
  obtain rb ib where b: "upsert_chunks (\<lambda>_. None) i cvs ixb = (rb, ib)"
    by (cases "upsert_chunks (\<lambda>_. None) i cvs ixb")
  note ca = upsert_chunks_complete[OF a] and cb = upsert_chunks_complete[OF b]
  have "ia key = ib key" for key
  proof (cases "\<exists>j<length cvs. key = (source (fst (cvs ! j)), i + j)")
    case True
    then obtain j where "j < length cvs" "key = (source (fst (cvs ! j)), i + j)" by blast
    then show ?thesis using ca(2) cb(2) by simp
  next
    case False
    then have n: "\<forall>j<length cvs. key \<noteq> (source (fst (cvs ! j)), i + j)" by blast
    have "ia key = ixa key" using ca(3) n by blast
    moreover have "ib key = ixb key" using cb(3) n by blast
    moreover have "ixa key = ixb key" using agree n by blast
    ultimately show ?thesis by simp
  qed
  then have "ia = ib" by (rule ext)
  then show ?thesis using a b ca(1) cb(1) by simp
qed

lemma spec_from_documents_frame:
  assumes "spec_from_documents emb flt docs ix = (r, ix')"
  shows "ix' key = ix key \<or> (\<exists>j<length docs. key = (source (docs ! j), j))"
proof (cases "emb (map chunk_text docs)")
  case (Inl e)
  then show ?thesis using assms by (simp add: spec_from_documents_def)
next
  case (Inr vectors)
  show ?thesis
  proof (cases "length vectors = length docs")
    case False
    then show ?thesis using assms Inr by (simp add: spec_from_documents_def)
  next
    case True
    then have "upsert_chunks flt 0 (zip docs vectors) ix = (r, ix')"
      using assms Inr by (simp add: spec_from_documents_def)
    from upsert_chunks_frame[OF this, of key] show ?thesis
      using True by auto
  qed
qed

lemma spec_from_documents_rewrite:
  assumes emb: "emb2 (map chunk_text docs) = Inr vectors" and len: "length vectors = length docs"
    and first: "spec_from_documents emb1 flt1 docs ix = (r, ix1)"
  shows "spec_from_documents emb2 (\<lambda>_. None) docs ix1 = spec_from_documents emb2 (\<lambda>_. None) docs ix"
proof -
  have "\<forall>key. (\<forall>j<length (zip docs vectors). key \<noteq> (source (fst (zip docs vectors ! j)), 0 + j))
          \<longrightarrow> ix1 key = ix key"
  proof (intro allI impI)
    fix key assume a: "\<forall>j<length (zip docs vectors). key \<noteq> (source (fst (zip docs vectors ! j)), 0 + j)"
    have "\<not> (\<exists>j<length docs. key = (source (docs ! j), j))"
      using a len by auto
    then show "ix1 key = ix key"
      using spec_from_documents_frame[OF first, of key] by blast
  qed
  from upsert_chunks_overwrites[OF this] show ?thesis
    using emb len by (simp add: spec_from_documents_def)
qed

lemma spec_from_documents_dom:
  assumes emb: "emb (map chunk_text docs) = Inr vectors" and len: "length vectors = length docs"
  shows "dom (snd (spec_from_documents emb (\<lambda>_. None) docs ix))
           = dom ix \<union> chunk_keys docs (length docs)"
proof -
  obtain r ix' where u: "upsert_chunks (\<lambda>_. None) 0 (zip docs vectors) ix = (r, ix')"
    by (cases "upsert_chunks (\<lambda>_. None) 0 (zip docs vectors) ix")
  note c = upsert_chunks_complete[OF u]
  have res: "snd (spec_from_documents emb (\<lambda>_. None) docs ix) = ix'"
    using emb len u by (simp add: spec_from_documents_def)
  have in_keys: "ix' key \<noteq> None" if "key \<in> chunk_keys docs (length docs)" for key
  proof -
    from that obtain j where "j < length docs" "key = (source (docs ! j), j)"
      by (auto simp: chunk_keys_def)
    then show ?thesis using c(2) len by auto
  qed
  have out_keys: "ix' key = ix key" if "key \<notin> chunk_keys docs (length docs)" for key
  proof -
    have "\<forall>j<length (zip docs vectors). key \<noteq> (source (fst (zip docs vectors ! j)), 0 + j)"
      using that len by (auto simp: chunk_keys_def)
    then show ?thesis using c(3) by blast
  qed
  show ?thesis
    unfolding res using in_keys out_keys by (auto simp: dom_def) metis+
qed




subsection \<open>The writer on the small inbox\<close>

lemma spec_env_simps [simp]:
  "load_data (spec_env flt) = chunk_load"
  "from_documents (spec_env flt) = spec_from_documents (get_text_embeddings echo_service infinity) flt"
  "now (spec_env flt) = 1700000000"
  "os_faults (spec_env flt) = no_faults"
  by (simp_all add: spec_env_def)

lemma spec_world_simps [simp]:
  "fs spec_world = example_fs" "index spec_world = Map.empty" "log spec_world = []"
  by (simp_all add: spec_world_def)

lemma example_chunks: "chunk_load example_fs script_path = Inr script_chunks"
  by (simp add: chunk_load_def example_fs_def script_path_def script_chunks_def)

lemma example_vectors:
  "get_text_embeddings echo_service infinity (map chunk_text script_chunks)
     = Inr [JArr [JNum 97], JArr [JNum 98], JArr [JNum 99]]"
  by (simp add: get_text_embeddings_def echo_service_def infinity_def ebind_def
      raise_for_status_def response_json_def py_getitem_def py_iter_def script_chunks_def)

lemma example_partial_write:
  "spec_from_documents (get_text_embeddings echo_service infinity) second_upsert_fails
     script_chunks Map.empty
   = (Some (IndexError ''upsert refused''),
      [(script_path, 0) \<mapsto> index_record_of \<lparr>chunk_text = ''a'', source = script_path\<rparr>
                                 (JArr [JNum 97])])"
  by (simp add: spec_from_documents_def example_vectors second_upsert_fails_def upsert_def)
     (simp add: script_chunks_def second_upsert_fails_def upsert_def)


section \<open>What a file contributes to the index\<close>




section \<open>Reprocessing overwrites\<close>

text \<open>
  C4, against the writer modelled from the specification. Let an attempt on a file be
  followed by a second one on the same file that loads the same chunks and whose index
  write goes through. Whatever the first attempt has left in the index (all records, the
  records before a failure, or nothing), the index after the second attempt is the one a
  single complete attempt gives: the records are keyed by source path and chunk index, so
  they are overwritten and not duplicated, and the keys of the index are the keys it had
  together with one key per chunk.
\<close>

theorem reindex_overwrites:
  assumes w1: "from_documents e1 = spec_from_documents emb1 flt1"
    and w2: "from_documents e2 = spec_from_documents emb2 (\<lambda>_. None)"
    and l1: "load_data e1 (fs w) p = Inr docs"
    and l2: "load_data e2 (fs (snd (process_file e1 w p))) p = Inr docs"
    and l3: "load_data e2 (fs w) p = Inr docs"
    and emb: "emb2 (map chunk_text docs) = Inr vectors"
    and len: "length vectors = length docs"
  shows "index (snd (process_file e2 (snd (process_file e1 w p)) p))
           = index (snd (process_file e2 w p))
       \<and> dom (index (snd (process_file e2 w p))) = dom (index w) \<union> chunk_keys docs (length docs)"
proof -
  obtain r ix1 where first: "spec_from_documents emb1 flt1 docs (index w) = (r, ix1)"
    by (cases "spec_from_documents emb1 flt1 docs (index w)")
  have i1: "index (snd (process_file e1 w p)) = ix1"
    using l1 w1 first by (simp add: index_process_file)
  have "index (snd (process_file e2 (snd (process_file e1 w p)) p))
          = snd (spec_from_documents emb2 (\<lambda>_. None) docs ix1)"
    using l2 w2 i1 by (simp add: index_process_file)
  also have "\<dots> = snd (spec_from_documents emb2 (\<lambda>_. None) docs (index w))"
    using spec_from_documents_rewrite[of emb2 docs vectors emb1 flt1 "index w" r ix1] emb len first
    by simp
  also have "\<dots> = index (snd (process_file e2 w p))"
    using l3 w2 by (simp add: index_process_file)
  finally have a: "index (snd (process_file e2 (snd (process_file e1 w p)) p))
           = index (snd (process_file e2 w p))" .
  have "dom (index (snd (process_file e2 w p))) = dom (index w) \<union> chunk_keys docs (length docs)"
    using l3 w2 spec_from_documents_dom[of emb2 docs vectors "index w"] emb len
    by (simp add: index_process_file)
  with a show ?thesis by simp
qed

text \<open>
  The first attempt stops at chunk 2 of 3, the retry writes all three.
\<close>

theorem reindex_overwrites_witness:
  "load_data (spec_env second_upsert_fails) (fs spec_world) script_path = Inr script_chunks
   \<and> load_data (spec_env (\<lambda>_. None))
         (fs (snd (process_file (spec_env second_upsert_fails) spec_world script_path)))
         script_path = Inr script_chunks
   \<and> index (snd (process_file (spec_env (\<lambda>_. None))
                (snd (process_file (spec_env second_upsert_fails) spec_world script_path))
                script_path))
       = index (snd (process_file (spec_env (\<lambda>_. None)) spec_world script_path))
   \<and> dom (index (snd (process_file (spec_env (\<lambda>_. None)) spec_world script_path)))
       = {(script_path, 0), (script_path, 1), (script_path, 2)}"
proof -
  have w1: "from_documents (spec_env second_upsert_fails)
     = spec_from_documents (get_text_embeddings echo_service infinity) second_upsert_fails"
    by simp
  have w2: "from_documents (spec_env (\<lambda>_. None))
     = spec_from_documents (get_text_embeddings echo_service infinity) (\<lambda>_. None)"
    by simp
  have l1: "load_data (spec_env second_upsert_fails) (fs spec_world) script_path
              = Inr script_chunks"
    by (simp add: example_chunks)
  have l3: "load_data (spec_env (\<lambda>_. None)) (fs spec_world) script_path = Inr script_chunks"
    by (simp add: example_chunks)
  have same: "fs (snd (process_file (spec_env second_upsert_fails) spec_world script_path))
                = fs spec_world"
    by (simp add: fs_process_file example_chunks example_partial_write)
  have l2: "load_data (spec_env (\<lambda>_. None))
         (fs (snd (process_file (spec_env second_upsert_fails) spec_world script_path)))
         script_path = Inr script_chunks"
    unfolding same by (simp add: example_chunks)
  have len: "length [JArr [JNum 97], JArr [JNum 98], JArr [JNum (99::nat)]] = length script_chunks"
    by (simp add: script_chunks_def)
  have keys: "chunk_keys script_chunks (length script_chunks)
                = {(script_path, 0), (script_path, 1), (script_path, 2)}"
    by (auto simp: chunk_keys_def script_chunks_def lessThan_Suc numeral_3_eq_3)
  from reindex_overwrites[OF w1 w2 l1 l2 l3 example_vectors len] l1 l2 keys
  show ?thesis by simp
qed

end
